theory Spec2Isabelle
  imports Main
begin

section \<open>The pipeline stage reducer (compass-aggregations, modules/pipeline.js)\<close>

subsection \<open>Data model: stages, arrays and the object store\<close>

text \<open>
  The reducer works on JavaScript arrays of stage objects. Several properties are about
  reference identity and about which objects are written, so arrays and stage objects
  live in an explicit store: \<open>objs\<close> maps an address to the stage object found there,
  \<open>arrs\<close> maps an address to the elements of the array found there, and \<open>nxt\<close> is
  the first address not yet handed out. Every address denotes an object, as every
  JavaScript reference does; the addresses below \<open>nxt\<close> are the ones in use.
\<close>

type_synonym ref = nat

text \<open>A preview document and a compiled stage, each as its JSON text.\<close>

type_synonym doc = string
type_synonym compiled = string

text \<open>
  The \<open>id\<close> of a stage: \<open>new ObjectId().toHexString()\<close> in \<open>addStage\<close>,
  \<open>new Date().getTime()\<close> in \<open>AddAfterStage\<close>.
\<close>

datatype stage_id = HexId string | TimeId int

text \<open>
  A stage object: the fields of \<open>EMPTY_STAGE\<close>, and the three fields the module adds
  later (\<open>executor\<close>, \<open>snippet\<close>, \<open>fromStageOperators\<close>), absent until written.
  \<open>None\<close> is \<open>null\<close> for \<open>stageOperator\<close>, \<open>syntaxError\<close> and \<open>error\<close>, and
  \<open>undefined\<close> for \<open>isComplete\<close> (which \<open>stagePreviewUpdated\<close> called with three
  arguments stores) and for the three later fields.
\<close>

record stage_obj =
  stage_id :: stage_id
  stageOperator :: "string option"
  stage :: string
  isValid :: bool
  isEnabled :: bool
  isExpanded :: bool
  isLoading :: bool
  isComplete :: "bool option"
  previewDocuments :: "doc list"
  syntaxError :: "string option"
  error :: "string option"
  executor :: "compiled option"
  snippet :: "string option"
  fromStageOperators :: "bool option"

text \<open>An array element: a reference to a stage object, or \<open>undefined\<close>.\<close>

datatype elem = Ref ref | Undefined

record heap =
  objs :: "ref \<Rightarrow> stage_obj"
  arrs :: "ref \<Rightarrow> elem list"
  nxt :: nat

text \<open>
  What a call does: it returns a value, it throws a \<open>TypeError\<close>, or it leaves
  the typed fragment modelled here (\<open>Untyped\<close>: the array it was given holds
  \<open>undefined\<close> where a stage object is expected, so that \<open>Object.assign({}, s)\<close>
  would produce an object with no stage fields, or the action lacks the payload of
  its type).
\<close>

datatype 'a outcome = Returned 'a | TypeError | Untyped

definition alloc_obj :: "heap \<Rightarrow> stage_obj \<Rightarrow> heap \<times> ref" where
  "alloc_obj h s = (h\<lparr>objs := (objs h)(nxt h := s), nxt := Suc (nxt h)\<rparr>, nxt h)"

definition alloc_arr :: "heap \<Rightarrow> elem list \<Rightarrow> heap \<times> ref" where
  "alloc_arr h es = (h\<lparr>arrs := (arrs h)(nxt h := es), nxt := Suc (nxt h)\<rparr>, nxt h)"

text \<open>\<open>xs[i]\<close> for an integer \<open>i\<close>: \<open>undefined\<close> out of range.\<close>

definition elem_at :: "elem list \<Rightarrow> int \<Rightarrow> elem" where
  "elem_at xs i = (if 0 \<le> i \<and> i < int (length xs) then xs ! nat i else Undefined)"

text \<open>
  \<open>arr[i].f = v; ...\<close>: the field writes on the object at index \<open>i\<close> of the array at
  \<open>a\<close>, as one update \<open>f\<close> of the object. \<open>None\<close> when \<open>arr[i]\<close> is \<open>undefined\<close>
  (the first write throws a TypeError).
\<close>

definition assign :: "heap \<Rightarrow> ref \<Rightarrow> int \<Rightarrow> (stage_obj \<Rightarrow> stage_obj) \<Rightarrow> heap option" where
  "assign h a i f =
     (case elem_at (arrs h a) i of
        Undefined \<Rightarrow> None
      | Ref r \<Rightarrow> Some (h\<lparr>objs := (objs h)(r := f (objs h r))\<rparr>))"

text \<open>
  \<open>Array.prototype.splice(start, deleteCount, ...items)\<close> on the elements \<open>xs\<close>:
  a negative \<open>start\<close> counts from the end, both arguments are clamped. The result is
  the removed elements and the new contents of the array.
\<close>

definition splice_arr :: "'a list \<Rightarrow> int \<Rightarrow> int \<Rightarrow> 'a list \<Rightarrow> 'a list \<times> 'a list" where
  "splice_arr xs start deleteCount items =
     (let len = int (length xs);
          actualStart = (if start < 0 then max (len + start) 0 else min start len);
          actualDeleteCount = min (max deleteCount 0) (len - actualStart);
          a = nat actualStart;
          d = nat actualDeleteCount
      in (take d (drop a xs), take a xs @ items @ drop (a + d) xs))"

subsection \<open>Module constants\<close>

definition PREFIX :: string where
  "PREFIX = ''aggregations/pipeline''"

definition STAGE_ADDED :: string where
  "STAGE_ADDED = PREFIX @ ''/STAGE_ADDED''"

definition STAGE_ADDED_AFTER :: string where
  "STAGE_ADDED_AFTER = PREFIX @ ''/STAGE_ADDED_AFTER''"

definition STAGE_CHANGED :: string where
  "STAGE_CHANGED = PREFIX @ ''/STAGE_CHANGED''"

definition STAGE_COLLAPSE_TOGGLED :: string where
  "STAGE_COLLAPSE_TOGGLED = PREFIX @ ''/STAGE_COLLAPSE_TOGGLED''"

definition STAGE_DELETED :: string where
  "STAGE_DELETED = PREFIX @ ''/STAGE_DELETED''"

definition STAGE_MOVED :: string where
  "STAGE_MOVED = PREFIX @ ''/STAGE_MOVED''"

definition STAGE_OPERATOR_SELECTED :: string where
  "STAGE_OPERATOR_SELECTED = PREFIX @ ''/STAGE_OPERATOR_SELECTED''"

definition STAGE_TOGGLED :: string where
  "STAGE_TOGGLED = PREFIX @ ''/STAGE_TOGGLED''"

definition STAGE_PREVIEW_UPDATED :: string where
  "STAGE_PREVIEW_UPDATED = PREFIX @ ''/STAGE_PREVIEW_UPDATED''"

definition LOADING_STAGE_RESULTS :: string where
  "LOADING_STAGE_RESULTS = PREFIX @ ''/LOADING_STAGE_RESULTS''"

definition REQUIRED_AS_FIRST_STAGE :: "string list" where
  "REQUIRED_AS_FIRST_STAGE =
     [''$collStats'', ''$currentOp'', ''$indexStats'', ''$listLocalSessions'', ''$listSessions'']"

definition FULL_SCAN_OPS :: "string list" where
  "FULL_SCAN_OPS = [''$group'', ''$bucket'', ''$bucketAuto'']"

definition OUT :: string where
  "OUT = ''$out''"

definition DEFAULT_SNIPPET :: string where
  "DEFAULT_SNIPPET = [CHR ''{'', CHR 0x0A, CHR '' '', CHR '' '', CHR 0x0A, CHR ''}'']"

text \<open>
  \<open>EMPTY_STAGE\<close> and \<open>INITIAL_STATE = [EMPTY_STAGE]\<close> are objects of the module,
  created once when it is loaded: they live in the store, at the first two addresses.
  \<open>module_heap\<close> is the store right after loading, \<open>oid\<close> being the hex string that
  \<open>new ObjectId()\<close> gave then.
\<close>

definition EMPTY_STAGE :: ref where
  "EMPTY_STAGE = 0"

definition INITIAL_STATE :: ref where
  "INITIAL_STATE = 1"

definition empty_stage :: "string \<Rightarrow> stage_obj" where
  "empty_stage oid =
     \<lparr>stage_id = HexId oid, stageOperator = None, stage = '''', isValid = True,
      isEnabled = True, isExpanded = True, isLoading = False, isComplete = Some False,
      previewDocuments = [], syntaxError = None, error = None,
      executor = None, snippet = None, fromStageOperators = None\<rparr>"

definition module_heap :: "string \<Rightarrow> heap" where
  "module_heap oid =
     \<lparr>objs = (\<lambda>_. empty_stage oid),
      arrs = (\<lambda>_. [])(INITIAL_STATE := [Ref EMPTY_STAGE]),
      nxt = 2\<rparr>"

subsection \<open>copyState\<close>

text \<open>
  \<open>state.map(s => Object.assign({}, s))\<close>: a new object for every element, holding
  the same fields, and a new array of them.
\<close>

fun copy_elems :: "heap \<Rightarrow> elem list \<Rightarrow> (heap \<times> elem list) option" where
  "copy_elems h [] = Some (h, [])"
| "copy_elems h (Undefined # es) = None"
| "copy_elems h (Ref r # es) =
     (case alloc_obj h (objs h r) of
        (h1, r') \<Rightarrow>
          (case copy_elems h1 es of
             None \<Rightarrow> None
           | Some (h2, es') \<Rightarrow> Some (h2, Ref r' # es')))"

definition copyState :: "heap \<Rightarrow> ref \<Rightarrow> (heap \<times> ref) option" where
  "copyState h state =
     (case copy_elems h (arrs h state) of
        None \<Rightarrow> None
      | Some (h1, es) \<Rightarrow> Some (alloc_arr h1 es))"

subsection \<open>Actions\<close>

text \<open>
  The error an action carries: \<open>null\<close>, \<open>undefined\<close>, or an \<open>Error\<close> object with
  its message.
\<close>

datatype js_error = NullError | UndefinedError | Error string

text \<open>
  The actions of the ten action creators, each with the payload its creator gives it
  (indices are integers), and \<open>OtherAction t\<close>: an action of any other type \<open>t\<close>.
\<close>

datatype action =
    StageAdded
  | StageAddedAfter int
  | StageChanged string int
  | StageCollapseToggled int
  | StageDeleted int
  | StageMoved int int
  | StageOperatorSelected int "string option" bool
  | StageToggled int
  | StagePreviewUpdated "doc list" int js_error "bool option"
  | LoadingStageResults int
  | OtherAction string

fun action_type :: "action \<Rightarrow> string" where
  "action_type StageAdded = STAGE_ADDED"
| "action_type (StageAddedAfter index) = STAGE_ADDED_AFTER"
| "action_type (StageChanged v index) = STAGE_CHANGED"
| "action_type (StageCollapseToggled index) = STAGE_COLLAPSE_TOGGLED"
| "action_type (StageDeleted index) = STAGE_DELETED"
| "action_type (StageMoved fromIndex toIndex) = STAGE_MOVED"
| "action_type (StageOperatorSelected index operator isCommenting) = STAGE_OPERATOR_SELECTED"
| "action_type (StageToggled index) = STAGE_TOGGLED"
| "action_type (StagePreviewUpdated docs index err complete) = STAGE_PREVIEW_UPDATED"
| "action_type (LoadingStageResults index) = LOADING_STAGE_RESULTS"
| "action_type (OtherAction t) = t"

subsection \<open>What the module takes from outside\<close>

text \<open>
  \<open>STAGE_OPERATORS\<close> is the table of the package mongodb-ace-autocompleter: of an
  entry the module reads \<open>name\<close>, \<open>snippet\<close> and \<open>comment\<close> (\<open>None\<close>: the entry
  has no such property). \<open>newObjectId\<close> is the hex string of the next
  \<open>new ObjectId()\<close>, \<open>now\<close> the next \<open>new Date().getTime()\<close>.
\<close>

record operator_details =
  op_name :: string
  op_snippet :: "string option"
  op_comment :: "string option"

record env =
  STAGE_OPERATORS :: "operator_details list"
  newObjectId :: string
  now :: int

text \<open>\<open>x || d\<close> for a string property \<open>x\<close>: absent and the empty string are falsy.\<close>

fun or_default :: "string option \<Rightarrow> string \<Rightarrow> string" where
  "or_default None d = d"
| "or_default (Some x) d = (if x = [] then d else x)"

definition getStageOperator :: "operator_details list \<Rightarrow> string option \<Rightarrow> operator_details option" where
  "getStageOperator ops name = find (\<lambda>op. Some (op_name op) = name) ops"

subsection \<open>The ten state transitions\<close>

definition changeStage :: "heap \<Rightarrow> ref \<Rightarrow> int \<Rightarrow> string \<Rightarrow> heap \<times> ref outcome" where
  "changeStage h state index v =
     (case copyState h state of
        None \<Rightarrow> (h, Untyped)
      | Some (h1, newState) \<Rightarrow>
          (case assign h1 newState index
                  (\<lambda>s. s\<lparr>stage := v, isComplete := Some False, fromStageOperators := Some False\<rparr>) of
             None \<Rightarrow> (h1, TypeError)
           | Some h2 \<Rightarrow> (h2, Returned newState)))"

definition addStage :: "heap \<Rightarrow> ref \<Rightarrow> string \<Rightarrow> heap \<times> ref outcome" where
  "addStage h state oid =
     (case copyState h state of
        None \<Rightarrow> (h, Untyped)
      | Some (h1, newState) \<Rightarrow>
          (case alloc_obj h1 ((objs h1 EMPTY_STAGE)\<lparr>stage_id := HexId oid\<rparr>) of
             (h2, newStage) \<Rightarrow>
               (h2\<lparr>arrs := (arrs h2)(newState := arrs h2 newState @ [Ref newStage])\<rparr>,
                Returned newState)))"

definition AddAfterStage :: "heap \<Rightarrow> ref \<Rightarrow> int \<Rightarrow> int \<Rightarrow> heap \<times> ref outcome" where
  "AddAfterStage h state index time =
     (case copyState h state of
        None \<Rightarrow> (h, Untyped)
      | Some (h1, newState) \<Rightarrow>
          (case alloc_obj h1 ((objs h1 EMPTY_STAGE)\<lparr>stage_id := TimeId time\<rparr>) of
             (h2, newStage) \<Rightarrow>
               (h2\<lparr>arrs := (arrs h2)
                       (newState := snd (splice_arr (arrs h2 newState) (index + 1) 0 [Ref newStage]))\<rparr>,
                Returned newState)))"

definition deleteStage :: "heap \<Rightarrow> ref \<Rightarrow> int \<Rightarrow> heap \<times> ref outcome" where
  "deleteStage h state index =
     (case copyState h state of
        None \<Rightarrow> (h, Untyped)
      | Some (h1, newState) \<Rightarrow>
          (h1\<lparr>arrs := (arrs h1)(newState := snd (splice_arr (arrs h1 newState) index 1 []))\<rparr>,
           Returned newState))"

text \<open>
  \<open>newState.splice(toIndex, 0, newState.splice(fromIndex, 1)[0])\<close>: the inner splice
  runs first, as an argument of the outer one; when it removes nothing, its \<open>[0]\<close> is
  \<open>undefined\<close>, which the outer splice inserts.
\<close>

definition moveStage :: "heap \<Rightarrow> ref \<Rightarrow> int \<Rightarrow> int \<Rightarrow> heap \<times> ref outcome" where
  "moveStage h state fromIndex toIndex =
     (if fromIndex = toIndex then (h, Returned state)
      else
        (case copyState h state of
           None \<Rightarrow> (h, Untyped)
         | Some (h1, newState) \<Rightarrow>
             (case splice_arr (arrs h1 newState) fromIndex 1 [] of
                (removed, rest) \<Rightarrow>
                  (h1\<lparr>arrs := (arrs h1)
                          (newState := snd (splice_arr rest toIndex 0 [elem_at removed 0]))\<rparr>,
                   Returned newState))))"

definition selectStageOperator ::
  "operator_details list \<Rightarrow> heap \<Rightarrow> ref \<Rightarrow> int \<Rightarrow> string option \<Rightarrow> bool \<Rightarrow> heap \<times> ref outcome" where
  "selectStageOperator ops h state index operatorName isCommenting =
     (case elem_at (arrs h state) index of
        Undefined \<Rightarrow> (h, TypeError)
      | Ref r \<Rightarrow>
          (if operatorName \<noteq> stageOperator (objs h r) then
             (case copyState h state of
                None \<Rightarrow> (h, Untyped)
              | Some (h1, newState) \<Rightarrow>
                  (let operatorDetails = getStageOperator ops operatorName;
                       snippet = or_default (case operatorDetails of None \<Rightarrow> None
                                             | Some d \<Rightarrow> op_snippet d) DEFAULT_SNIPPET;
                       comment = or_default (case operatorDetails of None \<Rightarrow> None
                                             | Some d \<Rightarrow> op_comment d) [];
                       v = (if isCommenting then comment @ snippet else snippet)
                   in (case assign h1 newState index
                              (\<lambda>s. s\<lparr>stageOperator := operatorName, stage := v, snippet := Some v,
                                     isExpanded := True, isComplete := Some False,
                                     fromStageOperators := Some True\<rparr>) of
                         None \<Rightarrow> (h1, TypeError)
                       | Some h2 \<Rightarrow> (h2, Returned newState))))
           else (h, Returned state)))"

definition toggleStage :: "heap \<Rightarrow> ref \<Rightarrow> int \<Rightarrow> heap \<times> ref outcome" where
  "toggleStage h state index =
     (case copyState h state of
        None \<Rightarrow> (h, Untyped)
      | Some (h1, newState) \<Rightarrow>
          (case assign h1 newState index (\<lambda>s. s\<lparr>isEnabled := \<not> isEnabled s\<rparr>) of
             None \<Rightarrow> (h1, TypeError)
           | Some h2 \<Rightarrow> (h2, Returned newState)))"

definition toggleStageCollapse :: "heap \<Rightarrow> ref \<Rightarrow> int \<Rightarrow> heap \<times> ref outcome" where
  "toggleStageCollapse h state index =
     (case copyState h state of
        None \<Rightarrow> (h, Untyped)
      | Some (h1, newState) \<Rightarrow>
          (case assign h1 newState index (\<lambda>s. s\<lparr>isExpanded := \<not> isExpanded s\<rparr>) of
             None \<Rightarrow> (h1, TypeError)
           | Some h2 \<Rightarrow> (h2, Returned newState)))"

text \<open>
  \<open>action.error === null\<close> holds for \<open>null\<close> only; \<open>action.error ? ... : null\<close>
  takes the message of an \<open>Error\<close> object, and \<open>null\<close> for \<open>null\<close> and
  \<open>undefined\<close>.
\<close>

definition updateStagePreview ::
  "heap \<Rightarrow> ref \<Rightarrow> int \<Rightarrow> doc list \<Rightarrow> js_error \<Rightarrow> bool option \<Rightarrow> heap \<times> ref outcome" where
  "updateStagePreview h state index documents err complete =
     (case copyState h state of
        None \<Rightarrow> (h, Untyped)
      | Some (h1, newState) \<Rightarrow>
          (case assign h1 newState index
                  (\<lambda>s. s\<lparr>previewDocuments := (if err = NullError then documents else []),
                         error := (case err of Error message \<Rightarrow> Some message
                                   | NullError \<Rightarrow> None | UndefinedError \<Rightarrow> None),
                         isLoading := False,
                         isComplete := complete\<rparr>) of
             None \<Rightarrow> (h1, TypeError)
           | Some h2 \<Rightarrow> (h2, Returned newState)))"

definition stageResultsLoading :: "heap \<Rightarrow> ref \<Rightarrow> int \<Rightarrow> heap \<times> ref outcome" where
  "stageResultsLoading h state index =
     (case copyState h state of
        None \<Rightarrow> (h, Untyped)
      | Some (h1, newState) \<Rightarrow>
          (case assign h1 newState index (\<lambda>s. s\<lparr>isLoading := True\<rparr>) of
             None \<Rightarrow> (h1, TypeError)
           | Some h2 \<Rightarrow> (h2, Returned newState)))"

subsection \<open>The reducer\<close>

text \<open>
  \<open>MAPPINGS\<close> is a plain object: \<open>MAPPINGS[action.type]\<close> finds the ten entries
  the module stores in it and, for any other key, what the object inherits from
  \<open>Object.prototype\<close>. Called as \<open>fn(state, action)\<close>, that is with \<open>this\<close>
  undefined, the inherited \<open>constructor\<close> (\<open>Object\<close>) returns its first argument,
  \<open>toString\<close> returns the string \<open>[object Undefined]\<close>, the other inherited
  methods throw a TypeError on \<open>this\<close>, and \<open>__proto__\<close> is an object, not a
  function, so that calling it throws a TypeError.
\<close>

datatype fn =
    F_changeStage | F_addStage | F_AddAfterStage | F_deleteStage | F_moveStage
  | F_selectStageOperator | F_toggleStage | F_toggleStageCollapse
  | F_updateStagePreview | F_stageResultsLoading
  | Object_constructor | Object_toString | Object_throwing

definition Object_prototype :: "(string \<times> fn) list" where
  "Object_prototype =
     [(''constructor'', Object_constructor),
      (''toString'', Object_toString),
      (''toLocaleString'', Object_throwing),
      (''valueOf'', Object_throwing),
      (''hasOwnProperty'', Object_throwing),
      (''isPrototypeOf'', Object_throwing),
      (''propertyIsEnumerable'', Object_throwing),
      (''__defineGetter__'', Object_throwing),
      (''__defineSetter__'', Object_throwing),
      (''__lookupGetter__'', Object_throwing),
      (''__lookupSetter__'', Object_throwing),
      (''__proto__'', Object_throwing)]"

definition MAPPINGS :: "string \<Rightarrow> fn option" where
  "MAPPINGS =
     map_of
       ([(STAGE_CHANGED, F_changeStage),
         (STAGE_ADDED, F_addStage),
         (STAGE_ADDED_AFTER, F_AddAfterStage),
         (STAGE_DELETED, F_deleteStage),
         (STAGE_MOVED, F_moveStage),
         (STAGE_OPERATOR_SELECTED, F_selectStageOperator),
         (STAGE_TOGGLED, F_toggleStage),
         (STAGE_COLLAPSE_TOGGLED, F_toggleStageCollapse),
         (STAGE_PREVIEW_UPDATED, F_updateStagePreview),
         (LOADING_STAGE_RESULTS, F_stageResultsLoading)] @ Object_prototype)"

text \<open>What the reducer returns: a state (an array reference), or a string.\<close>

datatype retval = State ref | StringValue string

fun as_state :: "heap \<times> ref outcome \<Rightarrow> heap \<times> retval outcome" where
  "as_state (h, Returned r) = (h, Returned (State r))"
| "as_state (h, TypeError) = (h, TypeError)"
| "as_state (h, Untyped) = (h, Untyped)"

text \<open>
  \<open>fn(state, action)\<close>: the function reads from the action the payload of its own
  action type (\<open>addStage\<close> reads nothing from it).
\<close>

definition call :: "fn \<Rightarrow> env \<Rightarrow> heap \<Rightarrow> ref \<Rightarrow> action \<Rightarrow> heap \<times> retval outcome" where
  "call f e h state a =
     (case f of
        F_changeStage \<Rightarrow>
          (case a of StageChanged v index \<Rightarrow> as_state (changeStage h state index v)
           | _ \<Rightarrow> (h, Untyped))
      | F_addStage \<Rightarrow> as_state (addStage h state (newObjectId e))
      | F_AddAfterStage \<Rightarrow>
          (case a of StageAddedAfter index \<Rightarrow> as_state (AddAfterStage h state index (now e))
           | _ \<Rightarrow> (h, Untyped))
      | F_deleteStage \<Rightarrow>
          (case a of StageDeleted index \<Rightarrow> as_state (deleteStage h state index)
           | _ \<Rightarrow> (h, Untyped))
      | F_moveStage \<Rightarrow>
          (case a of StageMoved fromIndex toIndex \<Rightarrow> as_state (moveStage h state fromIndex toIndex)
           | _ \<Rightarrow> (h, Untyped))
      | F_selectStageOperator \<Rightarrow>
          (case a of
             StageOperatorSelected index operator isCommenting \<Rightarrow>
               as_state (selectStageOperator (STAGE_OPERATORS e) h state index operator isCommenting)
           | _ \<Rightarrow> (h, Untyped))
      | F_toggleStage \<Rightarrow>
          (case a of StageToggled index \<Rightarrow> as_state (toggleStage h state index)
           | _ \<Rightarrow> (h, Untyped))
      | F_toggleStageCollapse \<Rightarrow>
          (case a of StageCollapseToggled index \<Rightarrow> as_state (toggleStageCollapse h state index)
           | _ \<Rightarrow> (h, Untyped))
      | F_updateStagePreview \<Rightarrow>
          (case a of
             StagePreviewUpdated docs index err complete \<Rightarrow>
               as_state (updateStagePreview h state index docs err complete)
           | _ \<Rightarrow> (h, Untyped))
      | F_stageResultsLoading \<Rightarrow>
          (case a of LoadingStageResults index \<Rightarrow> as_state (stageResultsLoading h state index)
           | _ \<Rightarrow> (h, Untyped))
      | Object_constructor \<Rightarrow> (h, Returned (State state))
      | Object_toString \<Rightarrow> (h, Returned (StringValue ''[object Undefined]''))
      | Object_throwing \<Rightarrow> (h, TypeError))"

text \<open>
  \<open>reducer(state = INITIAL_STATE, action)\<close>: \<open>None\<close> is the \<open>undefined\<close> state
  that takes the default.
\<close>

definition reducer :: "env \<Rightarrow> heap \<Rightarrow> ref option \<Rightarrow> action \<Rightarrow> heap \<times> retval outcome" where
  "reducer e h state_arg a =
     (let state = (case state_arg of None \<Rightarrow> INITIAL_STATE | Some s \<Rightarrow> s) in
      case MAPPINGS (action_type a) of
        None \<Rightarrow> (h, Returned (State state))
      | Some f \<Rightarrow> call f e h state a)"

subsection \<open>Pipeline generation\<close>

text \<open>
  The part of the store's state that the execution path reads:
  \<open>state.inputDocuments.count\<close> (a number, or the string \<open>N/A\<close>),
  \<open>state.pipeline\<close>, \<open>state.sample\<close>, \<open>state.collation\<close> (an object, as its list
  of properties; \<open>null\<close> and \<open>{}\<close> are the empty list) and \<open>state.namespace\<close>.
\<close>

datatype doc_count = NA | Count int

record agg_state =
  inputDocuments_count :: doc_count
  pipeline :: ref
  sample :: bool
  collation :: "(string \<times> string) list"
  namespace :: string

text \<open>
  An element of the generated pipeline: one of the two frozen limit objects of the
  module, or the compiled form of a stage.
\<close>

datatype runnable = Limit nat | Compiled compiled

definition LIMIT :: runnable where
  "LIMIT = Limit 20"

definition LARGE_LIMIT :: runnable where
  "LARGE_LIMIT = Limit 100000"

text \<open>\<open>ops.includes(stage.stageOperator)\<close>; the operator may be \<open>null\<close>.\<close>

fun ops_include :: "string list \<Rightarrow> string option \<Rightarrow> bool" where
  "ops_include ops None = False"
| "ops_include ops (Some x) = (x \<in> set ops)"

text \<open>\<open>count > 100000\<close>: false for the string \<open>N/A\<close>.\<close>

fun count_exceeds :: "doc_count \<Rightarrow> int \<Rightarrow> bool" where
  "count_exceeds NA n = False"
| "count_exceeds (Count c) n = (n < c)"

text \<open>
  \<open>generateStage\<close> (modules/stage) is not among the sources. It is handed a stage
  object of the state itself, not a copy, and may write to it: the parameter \<open>gen\<close>
  gives, for the stage object as it is when handed over, the compiled form that is
  returned and the stage object as \<open>generateStage\<close> leaves it.
\<close>

type_synonym compiler = "stage_obj \<Rightarrow> compiled \<times> stage_obj"

text \<open>
  The \<open>reduce\<close> of \<open>generatePipeline\<close> over the elements of \<open>state.pipeline\<close>, \<open>i\<close>
  the index of the first one and \<open>results\<close> the accumulator. The condition of the
  large limit is evaluated first; then \<open>stage.executor || generateStage(stage)\<close>
  calls \<open>generateStage\<close> when the stage has no executor. Reading \<open>stage.isEnabled\<close>
  of an \<open>undefined\<close> element throws. The result is the store afterwards and the
  outcome.
\<close>

fun pipeline_reduce ::
  "compiler \<Rightarrow> heap \<Rightarrow> agg_state \<Rightarrow> int \<Rightarrow> elem list \<Rightarrow> int \<Rightarrow> runnable list
     \<Rightarrow> heap \<times> runnable list outcome" where
  "pipeline_reduce gen h st index [] i results = (h, Returned results)"
| "pipeline_reduce gen h st index (e # es) i results =
     (if i \<le> index then
        (case e of
           Undefined \<Rightarrow> (h, TypeError)
         | Ref r \<Rightarrow>
             (if isEnabled (objs h r) then
                (case executor (objs h r) of
                   Some x \<Rightarrow>
                     pipeline_reduce gen h st index es (i + 1)
                       ((if inputDocuments_count st = NA \<or>
                            (count_exceeds (inputDocuments_count st) 100000 \<and>
                             ops_include FULL_SCAN_OPS (stageOperator (objs h r)) \<and> sample st)
                         then results @ [LARGE_LIMIT] else results) @ [Compiled x])
                 | None \<Rightarrow>
                     pipeline_reduce gen (h\<lparr>objs := (objs h)(r := snd (gen (objs h r)))\<rparr>)
                       st index es (i + 1)
                       ((if inputDocuments_count st = NA \<or>
                            (count_exceeds (inputDocuments_count st) 100000 \<and>
                             ops_include FULL_SCAN_OPS (stageOperator (objs h r)) \<and> sample st)
                         then results @ [LARGE_LIMIT] else results)
                        @ [Compiled (fst (gen (objs h r)))]))
              else pipeline_reduce gen h st index es (i + 1) results))
      else pipeline_reduce gen h st index es (i + 1) results)"

text \<open>
  \<open>lastStage\<close> is read after the reduce, from the store as the reduce left it.
\<close>

definition generatePipeline ::
  "compiler \<Rightarrow> heap \<Rightarrow> agg_state \<Rightarrow> int \<Rightarrow> heap \<times> runnable list outcome" where
  "generatePipeline gen h st index =
     (case pipeline_reduce gen h st index (arrs h (pipeline st)) 0 [] of
        (h1, Returned stages) \<Rightarrow>
          (if stages \<noteq> [] then
             (case elem_at (arrs h1 (pipeline st)) (int (length (arrs h1 (pipeline st))) - 1) of
                Undefined \<Rightarrow> (h1, TypeError)
              | Ref lastStage \<Rightarrow>
                  (if \<not> ops_include REQUIRED_AS_FIRST_STAGE (stageOperator (objs h1 lastStage)) \<and>
                      stageOperator (objs h1 lastStage) \<noteq> Some OUT
                   then (h1, Returned (stages @ [LIMIT]))
                   else (h1, Returned stages)))
           else (h1, Returned stages))
      | (h1, TypeError) \<Rightarrow> (h1, TypeError)
      | (h1, Untyped) \<Rightarrow> (h1, Untyped))"

subsection \<open>Execution\<close>

text \<open>
  What the execution path does to the outside, in order: actions it dispatches,
  events it dispatches through \<open>appRegistryEmit\<close>, calls of
  \<open>dataService.aggregate\<close>, and \<open>cursor.close()\<close>.
\<close>

record options =
  maxTimeMS :: nat
  allowDiskUse :: bool
  opt_collation :: "(string \<times> string) list option"

datatype effect =
    Dispatch action
  | DispatchEmit string nat "string option list"
  | Aggregate string "runnable list" options
  | CursorClose


text \<open>
  \<open>state.pipeline.map(s => s.stageOperator)\<close>: \<open>None\<close> when an element is
  \<open>undefined\<close> (a TypeError).
\<close>

fun stage_operators :: "heap \<Rightarrow> elem list \<Rightarrow> string option list option" where
  "stage_operators h [] = Some []"
| "stage_operators h (Undefined # es) = None"
| "stage_operators h (Ref r # es) =
     (case stage_operators h es of
        None \<Rightarrow> None
      | Some ops \<Rightarrow> Some (stageOperator (objs h r) # ops))"

text \<open>
  The callback \<open>executeStage\<close> hands to \<open>dataService.aggregate\<close>, called with \<open>err\<close>;
  when \<open>err\<close> is falsy, \<open>cursor.toArray\<close> calls back with \<open>e\<close> and \<open>docs\<close>
  (\<open>None\<close>: no array). It writes nothing to the store.
\<close>

definition aggregate_callback ::
  "heap \<Rightarrow> agg_state \<Rightarrow> int \<Rightarrow> js_error \<Rightarrow> js_error \<Rightarrow> doc list option \<Rightarrow> effect list \<times> unit outcome" where
  "aggregate_callback h st index err e docs =
     (case err of
        Error message \<Rightarrow> ([Dispatch (StagePreviewUpdated [] index err None)], Returned ())
      | _ \<Rightarrow>
          (case stage_operators h (arrs h (pipeline st)) of
             None \<Rightarrow>
               ([Dispatch (StagePreviewUpdated (case docs of None \<Rightarrow> [] | Some ds \<Rightarrow> ds)
                             index e (Some True)),
                 CursorClose], TypeError)
           | Some ops \<Rightarrow>
               ([Dispatch (StagePreviewUpdated (case docs of None \<Rightarrow> [] | Some ds \<Rightarrow> ds)
                             index e (Some True)),
                 CursorClose,
                 DispatchEmit ''agg-pipeline-executed'' (length (arrs h (pipeline st))) ops],
                Returned ())))"










section \<open>The saved-items store (compass-saved-aggregations-queries)\<close>

datatype item_type = Query | Aggregation

record item =
  item_id :: string
  lastModified :: int
  item_name :: string
  database :: string
  collection :: string
  item_type :: item_type

text \<open>A favorite query (\<open>_id\<close>, \<open>_name\<close>, \<open>_ns\<close>, \<open>_dateSaved\<close>) and a saved aggregation.\<close>

record query =
  query_id :: string
  query_name :: string
  query_ns :: string
  query_dateSaved :: int

record aggregation =
  aggregation_id :: string
  aggregation_name :: string
  aggregation_namespace :: string
  aggregation_lastModified :: int

text \<open>How a promise settles: fulfilled with a value, or rejected with a reason.\<close>

datatype 'a settled = Fulfilled 'a | Rejected string

record items_state =
  loading :: bool
  items :: "item list"

datatype items_action = ItemsFetched "item list" | OtherItemsAction string

definition ITEMS_INITIAL_STATE :: items_state where
  "ITEMS_INITIAL_STATE = \<lparr>loading = True, items = []\<rparr>"

fun items_reducer :: "items_state \<Rightarrow> items_action \<Rightarrow> items_state" where
  "items_reducer state (ItemsFetched payload) = state\<lparr>items := payload, loading := False\<rparr>"
| "items_reducer state (OtherItemsAction t) = state"

text \<open>
  \<open>toNS\<close> (the package mongodb-ns) is a parameter: the database and the collection
  of a namespace. \<open>getAggregationItems\<close> and \<open>getQueryItems\<close> await the load of
  their storage (\<open>readPipelinesFromStorage()\<close>, \<open>favoriteQueryStorage.loadAll()\<close>),
  given here as the way that load settles, and reject when it rejects.
\<close>

definition getAggregationItems ::
  "(string \<Rightarrow> string \<times> string) \<Rightarrow> aggregation list settled \<Rightarrow> item list settled" where
  "getAggregationItems toNS load =
     (case load of
        Rejected reason \<Rightarrow> Rejected reason
      | Fulfilled aggregations \<Rightarrow>
          Fulfilled
            (map (\<lambda>a. \<lparr>item_id = aggregation_id a,
                        lastModified = aggregation_lastModified a,
                        item_name = aggregation_name a,
                        database = fst (toNS (aggregation_namespace a)),
                        collection = snd (toNS (aggregation_namespace a)),
                        item_type = Aggregation\<rparr>)
               aggregations))"

definition getQueryItems ::
  "(string \<Rightarrow> string \<times> string) \<Rightarrow> query list settled \<Rightarrow> item list settled" where
  "getQueryItems toNS load =
     (case load of
        Rejected reason \<Rightarrow> Rejected reason
      | Fulfilled queries \<Rightarrow>
          Fulfilled
            (map (\<lambda>q. \<lparr>item_id = query_id q,
                        lastModified = query_dateSaved q,
                        item_name = query_name q,
                        database = fst (toNS (query_ns q)),
                        collection = snd (toNS (query_ns q)),
                        item_type = Query\<rparr>)
               queries))"

text \<open>
  \<open>Promise.allSettled\<close> is fulfilled, with the list of the ways its promises settled.
\<close>

definition allSettled :: "'a settled list \<Rightarrow> 'a settled list settled" where
  "allSettled ps = Fulfilled ps"

text \<open>\<open>result.status === 'fulfilled' ? result.value : []\<close>\<close>

fun value_or_empty :: "'a list settled \<Rightarrow> 'a list" where
  "value_or_empty (Fulfilled v) = v"
| "value_or_empty (Rejected reason) = []"

text \<open>
  The thunk of \<open>fetchItems\<close>: the actions it dispatches, and how its promise settles.
\<close>

definition fetchItems ::
  "(string \<Rightarrow> string \<times> string) \<Rightarrow> aggregation list settled \<Rightarrow> query list settled
     \<Rightarrow> items_action list \<times> unit settled" where
  "fetchItems toNS aggregationLoad queryLoad =
     (case allSettled [getAggregationItems toNS aggregationLoad, getQueryItems toNS queryLoad] of
        Rejected reason \<Rightarrow> ([], Rejected reason)
      | Fulfilled payload \<Rightarrow>
          ([ItemsFetched (concat (map value_or_empty payload))], Fulfilled ()))"

section \<open>Reading the store\<close>

text \<open>
  The stage objects an array holds, in order, as values; \<open>None\<close> when an element is
  \<open>undefined\<close>.
\<close>

fun read_elems :: "heap \<Rightarrow> elem list \<Rightarrow> stage_obj list option" where
  "read_elems h [] = Some []"
| "read_elems h (Undefined # es) = None"
| "read_elems h (Ref r # es) =
     (case read_elems h es of None \<Rightarrow> None | Some xs \<Rightarrow> Some (objs h r # xs))"

definition stages_of :: "heap \<Rightarrow> ref \<Rightarrow> stage_obj list option" where
  "stages_of h a = read_elems h (arrs h a)"

text \<open>
  A state of a store: the store holds the two objects of the module, and the array
  and the objects it refers to are in use.
\<close>

fun elem_below :: "nat \<Rightarrow> elem \<Rightarrow> bool" where
  "elem_below n (Ref r) = (r < n)"
| "elem_below n Undefined = True"

definition wf_state :: "heap \<Rightarrow> ref \<Rightarrow> bool" where
  "wf_state h a = (2 \<le> nxt h \<and> a < nxt h \<and> list_all (elem_below (nxt h)) (arrs h a))"

text \<open>
  \<open>unchanged h h'\<close>: every array and every stage object in use in \<open>h\<close> is the same in
  \<open>h'\<close>, which may hold new ones.
\<close>

definition unchanged :: "heap \<Rightarrow> heap \<Rightarrow> bool" where
  "unchanged h h' =
     (nxt h \<le> nxt h' \<and> (\<forall>r<nxt h. objs h' r = objs h r \<and> arrs h' r = arrs h r))"

text \<open>
  \<open>fresh_copy h h' a\<close>: the array \<open>a\<close> was created after \<open>h\<close>, and so was every stage
  object it holds in \<open>h'\<close>.
\<close>

fun elem_from :: "nat \<Rightarrow> elem \<Rightarrow> bool" where
  "elem_from n (Ref r) = (n \<le> r)"
| "elem_from n Undefined = True"

definition fresh_copy :: "heap \<Rightarrow> heap \<Rightarrow> ref \<Rightarrow> bool" where
  "fresh_copy h h' a = (nxt h \<le> a \<and> a < nxt h' \<and> list_all (elem_from (nxt h)) (arrs h' a))"

text \<open>
  \<open>stage_writes gen s s'\<close>: the stage object \<open>s'\<close> comes from \<open>s\<close> by the two
  kinds of write the execution path makes to a stage object outside the reducer:
  what \<open>generateStage\<close> does to a stage object handed to it, and the assignment of
  \<open>executor\<close>.
\<close>

inductive stage_writes :: "compiler \<Rightarrow> stage_obj \<Rightarrow> stage_obj \<Rightarrow> bool" for gen :: compiler where
  unwritten: "stage_writes gen s s"
| compiled: "stage_writes gen s s' \<Longrightarrow> stage_writes gen s (snd (gen s'))"
| cached: "stage_writes gen s s' \<Longrightarrow> stage_writes gen s (s'\<lparr>executor := Some c\<rparr>)"




text \<open>
  The cases of the reducer. \<open>same_reference\<close>: the two actions that the reducer
  answers with the state it was given. \<open>dereferenced_index\<close>: the index at which a
  transition reads or writes a field of \<open>state[index]\<close>, which throws when there is
  no such stage. \<open>recognized\<close>: the action is one of the ten action creators'.
\<close>

definition in_range :: "'a list \<Rightarrow> int \<Rightarrow> bool" where
  "in_range xs i = (0 \<le> i \<and> i < int (length xs))"

fun same_reference :: "stage_obj list \<Rightarrow> action \<Rightarrow> bool" where
  "same_reference xs (StageMoved fromIndex toIndex) = (fromIndex = toIndex)"
| "same_reference xs (StageOperatorSelected i operator isCommenting) =
     (in_range xs i \<and> stageOperator (xs ! nat i) = operator)"
| "same_reference xs a = False"

fun dereferenced_index :: "action \<Rightarrow> int option" where
  "dereferenced_index (StageChanged v i) = Some i"
| "dereferenced_index (StageCollapseToggled i) = Some i"
| "dereferenced_index (StageOperatorSelected i operator isCommenting) = Some i"
| "dereferenced_index (StageToggled i) = Some i"
| "dereferenced_index (StagePreviewUpdated docs i err complete) = Some i"
| "dereferenced_index (LoadingStageResults i) = Some i"
| "dereferenced_index a = None"

definition index_out_of_range :: "stage_obj list \<Rightarrow> action \<Rightarrow> bool" where
  "index_out_of_range xs a =
     (case dereferenced_index a of None \<Rightarrow> False | Some i \<Rightarrow> \<not> in_range xs i)"

fun recognized :: "action \<Rightarrow> bool" where
  "recognized (OtherAction t) = False"
| "recognized a = True"

section \<open>Sample inputs\<close>

definition match_stage :: stage_obj where
  "match_stage = (empty_stage ''5f0a'')\<lparr>stageOperator := Some ''$match'', stage := ''{ x: 1 }''\<rparr>"

definition group_stage :: stage_obj where
  "group_stage = (empty_stage ''5f0b'')\<lparr>stageOperator := Some ''$group'', stage := ''{ _id: 1 }''\<rparr>"

definition sample_heap :: heap where
  "sample_heap =
     \<lparr>objs = (\<lambda>_. empty_stage ''5f00'')(2 := match_stage, 3 := group_stage),
      arrs = (\<lambda>_. [])(INITIAL_STATE := [Ref EMPTY_STAGE], 4 := [Ref 2, Ref 3]),
      nxt = 5\<rparr>"

definition sample_env :: env where
  "sample_env =
     \<lparr>STAGE_OPERATORS =
        [\<lparr>op_name = ''$match'', op_snippet = Some ''{ query }'', op_comment = Some ''/* query */ ''\<rparr>],
      newObjectId = ''5f0c'',
      now = 1600000000000\<rparr>"


definition sample_state :: agg_state where
  "sample_state =
     \<lparr>inputDocuments_count = Count 10, pipeline = 4, sample = True, collation = [],
      namespace = ''db.coll''\<rparr>"



text \<open>
  A pipeline of an enabled \<open>$match\<close> followed by a \<open>$out\<close>, and one of an enabled
  \<open>$out\<close> followed by a \<open>$match\<close>.
\<close>

definition out_stage :: stage_obj where
  "out_stage = (empty_stage ''5f0d'')\<lparr>stageOperator := Some ''$out'', stage := ''\"results\"''\<rparr>"

definition out_heap :: heap where
  "out_heap =
     \<lparr>objs = (\<lambda>_. empty_stage ''5f00'')(2 := match_stage, 3 := out_stage),
      arrs = (\<lambda>_. [])(INITIAL_STATE := [Ref EMPTY_STAGE], 4 := [Ref 2, Ref 3]),
      nxt = 5\<rparr>"

definition out_first_heap :: heap where
  "out_first_heap =
     \<lparr>objs = (\<lambda>_. empty_stage ''5f00'')(2 := out_stage, 3 := match_stage),
      arrs = (\<lambda>_. [])(INITIAL_STATE := [Ref EMPTY_STAGE], 4 := [Ref 2, Ref 3]),
      nxt = 5\<rparr>"

definition unknown_count_state :: agg_state where
  "unknown_count_state = sample_state\<lparr>inputDocuments_count := NA\<rparr>"

section \<open>Properties of the store operations\<close>

lemma read_elems_map_Ref: "read_elems h (map Ref rs) = Some (map (objs h) rs)"
  by (induction rs) auto

lemma read_elems_SomeD:
  "read_elems h es = Some xs \<Longrightarrow> \<exists>rs. es = map Ref rs \<and> xs = map (objs h) rs"
proof (induction es arbitrary: xs)
  case Nil
  then show ?case by simp
next
  case (Cons e es)
  then obtain r ys where e: "e = Ref r" and ys: "read_elems h es = Some ys" "xs = objs h r # ys"
    by (cases e) (auto split: option.splits)
  from Cons.IH[OF ys(1)] obtain rs where rs: "es = map Ref rs" "ys = map (objs h) rs" by blast
  have "e # es = map Ref (r # rs) \<and> xs = map (objs h) (r # rs)"
    using e ys rs by simp
  then show ?case by (rule exI)
qed

lemma copy_elems_typed:
  "\<forall>r\<in>set rs. r < nxt h \<Longrightarrow>
   \<exists>h'. copy_elems h (map Ref rs) = Some (h', map Ref [nxt h..<nxt h + length rs]) \<and>
        nxt h' = nxt h + length rs \<and> arrs h' = arrs h \<and>
        (\<forall>r<nxt h. objs h' r = objs h r) \<and>
        map (objs h') [nxt h..<nxt h + length rs] = map (objs h) rs"
proof (induction rs arbitrary: h)
  case Nil
  then show ?case by simp
next
  case (Cons r rs)
  define h1 where "h1 = h\<lparr>objs := (objs h)(nxt h := objs h r), nxt := Suc (nxt h)\<rparr>"
  have a: "alloc_obj h (objs h r) = (h1, nxt h)" by (simp add: alloc_obj_def h1_def)
  have "\<forall>r\<in>set rs. r < nxt h1" using Cons.prems by (auto simp: h1_def)
  from Cons.IH[OF this] obtain h' where h':
    "copy_elems h1 (map Ref rs) = Some (h', map Ref [nxt h1..<nxt h1 + length rs])"
    "nxt h' = nxt h1 + length rs" "arrs h' = arrs h1"
    "\<forall>r<nxt h1. objs h' r = objs h1 r"
    "map (objs h') [nxt h1..<nxt h1 + length rs] = map (objs h1) rs" by blast
  have n1: "nxt h1 = Suc (nxt h)" by (simp add: h1_def)
  have upt: "[nxt h..<nxt h + length (r # rs)] = nxt h # [nxt h1..<nxt h1 + length rs]"
    by (simp add: n1 upt_rec)
  have m: "map (objs h1) rs = map (objs h) rs" using Cons.prems by (auto simp: h1_def)
  have o: "objs h' (nxt h) = objs h r" using h'(4) by (simp add: n1 h1_def)
  have "copy_elems h (map Ref (r # rs)) = Some (h', map Ref [nxt h..<nxt h + length (r # rs)])"
    using a h'(1) upt by simp
  moreover have "nxt h' = nxt h + length (r # rs)" using h'(2) n1 by simp
  moreover have "arrs h' = arrs h" using h'(3) by (simp add: h1_def)
  moreover have "\<forall>x<nxt h. objs h' x = objs h x" using h'(4) by (auto simp: n1 h1_def)
  moreover have "map (objs h') [nxt h..<nxt h + length (r # rs)] = map (objs h) (r # rs)"
    using upt h'(5) m o by simp
  ultimately show ?case by blast
qed

lemma unchanged_refl: "unchanged h h"
  by (simp add: unchanged_def)

lemma copyState_typed:
  assumes "arrs h s = map Ref rs" and "\<forall>r\<in>set rs. r < nxt h"
  shows "\<exists>h1. copyState h s = Some (h1, nxt h + length rs) \<and>
          nxt h1 = Suc (nxt h + length rs) \<and>
          arrs h1 = (arrs h)(nxt h + length rs := map Ref [nxt h..<nxt h + length rs]) \<and>
          (\<forall>r<nxt h. objs h1 r = objs h r) \<and>
          map (objs h1) [nxt h..<nxt h + length rs] = map (objs h) rs"
proof -
  from copy_elems_typed[OF assms(2)] obtain h' where h':
    "copy_elems h (map Ref rs) = Some (h', map Ref [nxt h..<nxt h + length rs])"
    "nxt h' = nxt h + length rs" "arrs h' = arrs h"
    "\<forall>r<nxt h. objs h' r = objs h r"
    "map (objs h') [nxt h..<nxt h + length rs] = map (objs h) rs" by blast
  define h1 where "h1 = fst (alloc_arr h' (map Ref [nxt h..<nxt h + length rs]))"
  have c: "copyState h s = Some (h1, nxt h + length rs)"
    using h'(1,2) assms(1) by (simp add: copyState_def h1_def alloc_arr_def)
  have "nxt h1 = Suc (nxt h + length rs)" using h'(2) by (simp add: h1_def alloc_arr_def)
  moreover have "arrs h1 = (arrs h)(nxt h + length rs := map Ref [nxt h..<nxt h + length rs])"
    using h'(2,3) by (simp add: h1_def alloc_arr_def)
  moreover have "objs h1 = objs h'" by (simp add: h1_def alloc_arr_def)
  ultimately show ?thesis using c h'(4,5) by auto
qed

lemma copy_then_assign:
  assumes rs: "arrs h s = map Ref rs" "\<forall>r\<in>set rs. r < nxt h" and s: "s < nxt h"
    and run: "(case copyState h s of
                 None \<Rightarrow> (h, Untyped)
               | Some (h1, newState) \<Rightarrow>
                   (case assign h1 newState i f of
                      None \<Rightarrow> (h1, TypeError)
                    | Some h2 \<Rightarrow> (h2, Returned newState))) = (h', res)"
  shows "unchanged h h' \<and>
         (if 0 \<le> i \<and> i < int (length rs)
          then res = Returned (nxt h + length rs) \<and>
               nxt h' = Suc (nxt h + length rs) \<and>
               arrs h' (nxt h + length rs) = map Ref [nxt h..<nxt h + length rs] \<and>
               map (objs h') [nxt h..<nxt h + length rs] =
                 (map (objs h) rs)[nat i := f (objs h (rs ! nat i))]
          else res = TypeError)"
proof -
  let ?n = "nxt h" and ?k = "length rs"
  from copyState_typed[OF rs] obtain h1 where h1:
    "copyState h s = Some (h1, ?n + ?k)" "nxt h1 = Suc (?n + ?k)"
    "arrs h1 = (arrs h)(?n + ?k := map Ref [?n..<?n + ?k])"
    "\<forall>r<?n. objs h1 r = objs h r"
    "map (objs h1) [?n..<?n + ?k] = map (objs h) rs" by blast
  have u1: "unchanged h h1" using h1(2,3,4) by (auto simp: unchanged_def)
  show ?thesis
  proof -
    have "0 \<le> i \<and> i < int ?k \<or> \<not> (0 \<le> i \<and> i < int ?k)" by blast
    then show ?thesis
    proof (elim disjE)
      assume v: "0 \<le> i \<and> i < int ?k"
      then have j: "nat i < ?k" by linarith
      have e: "elem_at (arrs h1 (?n + ?k)) i = Ref (?n + nat i)"
        using v j by (simp add: elem_at_def h1(3))
      define h2 where "h2 = h1\<lparr>objs := (objs h1)(?n + nat i := f (objs h1 (?n + nat i)))\<rparr>"
      have a: "assign h1 (?n + ?k) i f = Some h2" using e by (simp add: assign_def h2_def)
      have r: "h' = h2" "res = Returned (?n + ?k)" using run h1(1) a by auto
      have o: "objs h1 (?n + nat i) = objs h (rs ! nat i)"
      proof -
        have "map (objs h1) [?n..<?n + ?k] ! nat i = map (objs h) rs ! nat i" using h1(5) by simp
        then show ?thesis using j by simp
      qed
      have "unchanged h h2" using u1 by (auto simp: unchanged_def h2_def)
      moreover have "nxt h2 = Suc (?n + ?k)" using h1(2) by (simp add: h2_def)
      moreover have "arrs h2 (?n + ?k) = map Ref [?n..<?n + ?k]" using h1(3) by (simp add: h2_def)
      moreover have "map (objs h2) [?n..<?n + ?k] = (map (objs h) rs)[nat i := f (objs h (rs ! nat i))]"
      proof (rule nth_equalityI)
        show "length (map (objs h2) [?n..<?n + ?k]) = length ((map (objs h) rs)[nat i := f (objs h (rs ! nat i))])"
          by simp
      next
        fix m assume "m < length (map (objs h2) [?n..<?n + ?k])"
        then have m: "m < ?k" by simp
        have "map (objs h1) [?n..<?n + ?k] ! m = map (objs h) rs ! m" using h1(5) by simp
        then have hm: "objs h1 (?n + m) = objs h (rs ! m)" using m by simp
        show "map (objs h2) [?n..<?n + ?k] ! m = (map (objs h) rs)[nat i := f (objs h (rs ! nat i))] ! m"
          using m j hm o by (simp add: h2_def nth_list_update)
      qed
      ultimately show ?thesis using v r by simp
    next
      assume nv: "\<not> (0 \<le> i \<and> i < int ?k)"
      then have e: "elem_at (arrs h1 (?n + ?k)) i = Undefined"
        by (auto simp: elem_at_def h1(3))
      then have "assign h1 (?n + ?k) i f = None" by (simp add: assign_def)
      then have "h' = h1" "res = TypeError" using run h1(1) by auto
      then show ?thesis using nv u1 by simp
    qed
  qed
qed

lemma MAPPINGS_own:
  "MAPPINGS STAGE_CHANGED = Some F_changeStage"
  "MAPPINGS STAGE_ADDED = Some F_addStage"
  "MAPPINGS STAGE_ADDED_AFTER = Some F_AddAfterStage"
  "MAPPINGS STAGE_DELETED = Some F_deleteStage"
  "MAPPINGS STAGE_MOVED = Some F_moveStage"
  "MAPPINGS STAGE_OPERATOR_SELECTED = Some F_selectStageOperator"
  "MAPPINGS STAGE_TOGGLED = Some F_toggleStage"
  "MAPPINGS STAGE_COLLAPSE_TOGGLED = Some F_toggleStageCollapse"
  "MAPPINGS STAGE_PREVIEW_UPDATED = Some F_updateStagePreview"
  "MAPPINGS LOADING_STAGE_RESULTS = Some F_stageResultsLoading"
  by (simp_all add: MAPPINGS_def PREFIX_def STAGE_CHANGED_def STAGE_ADDED_def
      STAGE_ADDED_AFTER_def STAGE_DELETED_def STAGE_MOVED_def STAGE_OPERATOR_SELECTED_def
      STAGE_TOGGLED_def STAGE_COLLAPSE_TOGGLED_def STAGE_PREVIEW_UPDATED_def
      LOADING_STAGE_RESULTS_def)

lemma stages_of_SomeD:
  "stages_of h a = Some xs \<Longrightarrow> \<exists>rs. arrs h a = map Ref rs \<and> xs = map (objs h) rs"
  by (simp add: stages_of_def read_elems_SomeD)

lemma elem_at_typed:
  "0 \<le> i \<Longrightarrow> i < int (length rs) \<Longrightarrow> elem_at (map Ref rs) i = Ref (rs ! nat i)"
  by (simp add: elem_at_def)

lemma wf_state_typed:
  assumes "wf_state h s" and "arrs h s = map Ref rs"
  shows "\<forall>r\<in>set rs. r < nxt h" and "s < nxt h" and "2 \<le> nxt h"
  using assms by (auto simp: wf_state_def list_all_iff)

lemma stages_of_fresh:
  assumes "arrs h' a = map Ref [n..<n + k]"
  shows "stages_of h' a = Some (map (objs h') [n..<n + k])"
  using assms by (simp add: stages_of_def read_elems_map_Ref)

lemma list_all_upt_from: "list_all (elem_from n) (map Ref [n..<n + k])"
  by (simp add: list_all_iff)

lemma list_all_upt_below: "n + k \<le> m \<Longrightarrow> list_all (elem_below m) (map Ref [n..<n + k])"
  by (auto simp: list_all_iff)

lemma copy_assign_result:
  assumes wf: "wf_state h s" and xs: "stages_of h s = Some xs"
    and i: "0 \<le> i" "i < int (length xs)"
    and run: "(case copyState h s of
                 None \<Rightarrow> (h, Untyped)
               | Some (h1, newState) \<Rightarrow>
                   (case assign h1 newState i f of
                      None \<Rightarrow> (h1, TypeError)
                    | Some h2 \<Rightarrow> (h2, Returned newState))) = (h', res)"
  shows "\<exists>s'. res = Returned s' \<and> stages_of h' s' = Some (xs[nat i := f (xs ! nat i)]) \<and>
              unchanged h h' \<and> fresh_copy h h' s' \<and> wf_state h' s'"
proof -
  from stages_of_SomeD[OF xs] obtain rs
    where rs: "arrs h s = map Ref rs" "xs = map (objs h) rs" by auto
  note t = wf_state_typed[OF wf rs(1)]
  have v: "0 \<le> i \<and> i < int (length rs)" using i rs(2) by simp
  from copy_then_assign[OF rs(1) t(1) t(2) run] v
  have r: "unchanged h h'" "res = Returned (nxt h + length rs)"
    "nxt h' = Suc (nxt h + length rs)"
    "arrs h' (nxt h + length rs) = map Ref [nxt h..<nxt h + length rs]"
    "map (objs h') [nxt h..<nxt h + length rs] = (map (objs h) rs)[nat i := f (objs h (rs ! nat i))]"
    by simp_all
  have j: "nat i < length rs" using v by linarith
  have "stages_of h' (nxt h + length rs) = Some (xs[nat i := f (xs ! nat i)])"
    using stages_of_fresh[OF r(4)] r(5) j rs(2) by simp
  moreover have "fresh_copy h h' (nxt h + length rs)"
    using r(3,4) by (simp add: fresh_copy_def list_all_upt_from)
  moreover have "wf_state h' (nxt h + length rs)"
    using r(3,4) t(3) by (simp add: wf_state_def list_all_upt_below)
  ultimately show ?thesis using r(1,2) by blast
qed

lemma copy_assign_throws:
  assumes wf: "wf_state h s" and xs: "stages_of h s = Some xs"
    and i: "\<not> (0 \<le> i \<and> i < int (length xs))"
    and run: "(case copyState h s of
                 None \<Rightarrow> (h, Untyped)
               | Some (h1, newState) \<Rightarrow>
                   (case assign h1 newState i f of
                      None \<Rightarrow> (h1, TypeError)
                    | Some h2 \<Rightarrow> (h2, Returned newState))) = (h', res)"
  shows "res = TypeError \<and> unchanged h h'"
proof -
  from stages_of_SomeD[OF xs] obtain rs
    where rs: "arrs h s = map Ref rs" "xs = map (objs h) rs" by auto
  note t = wf_state_typed[OF wf rs(1)]
  have v: "\<not> (0 \<le> i \<and> i < int (length rs))" using i rs(2) by simp
  from copy_then_assign[OF rs(1) t(1) t(2) run] v show ?thesis by simp
qed

lemma splice_delete_one:
  assumes "0 \<le> i" and "i < int (length xs)"
  shows "snd (splice_arr xs i 1 []) = take (nat i) xs @ drop (Suc (nat i)) xs"
  using assms by (simp add: splice_arr_def Let_def min_def max_def)

lemma splice_list_all:
  assumes "list_all P xs" and "list_all P ys"
  shows "list_all P (snd (splice_arr xs a d ys))" and "list_all P (fst (splice_arr xs a d ys))"
  using assms by (auto simp: splice_arr_def Let_def list_all_iff dest: in_set_takeD in_set_dropD)

lemma deleteStage_result:
  assumes wf: "wf_state h s" and xs: "stages_of h s = Some xs"
    and run: "deleteStage h s i = (h', res)"
  shows "\<exists>s'. res = Returned s' \<and> unchanged h h' \<and> fresh_copy h h' s' \<and>
           (0 \<le> i \<and> i < int (length xs) \<longrightarrow>
              stages_of h' s' = Some (take (nat i) xs @ drop (Suc (nat i)) xs))"
proof -
  from stages_of_SomeD[OF xs] obtain rs
    where rs: "arrs h s = map Ref rs" "xs = map (objs h) rs" by auto
  note t = wf_state_typed[OF wf rs(1)]
  let ?n = "nxt h" and ?k = "length rs"
  from copyState_typed[OF rs(1) t(1)] obtain h1 where h1:
    "copyState h s = Some (h1, ?n + ?k)" "nxt h1 = Suc (?n + ?k)"
    "arrs h1 = (arrs h)(?n + ?k := map Ref [?n..<?n + ?k])"
    "\<forall>r<?n. objs h1 r = objs h r"
    "map (objs h1) [?n..<?n + ?k] = map (objs h) rs" by blast
  let ?es = "snd (splice_arr (map Ref [?n..<?n + ?k]) i 1 [])"
  have r: "h' = h1\<lparr>arrs := (arrs h1)(?n + ?k := ?es)\<rparr>" "res = Returned (?n + ?k)"
    using run h1(1,3) by (auto simp: deleteStage_def)
  have u: "unchanged h h'" using r(1) h1(2,3,4) by (auto simp: unchanged_def)
  have a: "arrs h' (?n + ?k) = ?es" using r(1) by simp
  have f: "fresh_copy h h' (?n + ?k)"
    using a r(1) h1(2) splice_list_all(1)[OF list_all_upt_from[of ?n ?k], of "[]" i 1]
    by (simp add: fresh_copy_def)
  have "stages_of h' (?n + ?k) = Some (take (nat i) xs @ drop (Suc (nat i)) xs)"
    if v: "0 \<le> i \<and> i < int (length xs)"
  proof -
    define js where "js = take (nat i) [?n..<?n + ?k] @ drop (Suc (nat i)) [?n..<?n + ?k]"
    have l: "i < int (length (map Ref [?n..<?n + ?k]))" using v rs(2) by simp
    have "?es = map Ref js"
      unfolding js_def
      by (simp only: splice_delete_one[OF conjunct1[OF v] l] take_map drop_map map_append)
    then have "stages_of h' (?n + ?k) = Some (map (objs h') js)"
      using a by (simp only: stages_of_def read_elems_map_Ref)
    moreover have "objs h' = objs h1" using r(1) by simp
    moreover have "map (objs h1) js
        = take (nat i) (map (objs h1) [?n..<?n + ?k]) @ drop (Suc (nat i)) (map (objs h1) [?n..<?n + ?k])"
      unfolding js_def by (simp only: map_append take_map drop_map)
    ultimately show ?thesis
      using h1(5) rs(2) by (simp only:)
  qed
  then show ?thesis using r(2) u f by blast
qed

lemma reducer_toggle:
  assumes "wf_state h state" and "stages_of h state = Some xs"
    and "0 \<le> i" and "i < int (length xs)"
  shows "\<exists>h' state'.
           reducer e h (Some state) (StageToggled i) = (h', Returned (State state')) \<and>
           stages_of h' state' = Some (xs[nat i := (xs ! nat i)\<lparr>isEnabled := \<not> isEnabled (xs ! nat i)\<rparr>]) \<and>
           wf_state h' state'"
proof -
  obtain h' res where run: "toggleStage h state i = (h', res)" by (metis surj_pair)
  from copy_assign_result[OF assms run[unfolded toggleStage_def]] obtain s'
    where s': "res = Returned s'"
      "stages_of h' s' = Some (xs[nat i := (xs ! nat i)\<lparr>isEnabled := \<not> isEnabled (xs ! nat i)\<rparr>])"
      "wf_state h' s'" by auto
  have "reducer e h (Some state) (StageToggled i) = (h', Returned (State s'))"
    using run s'(1) by (simp add: reducer_def MAPPINGS_own call_def)
  then show ?thesis using s'(2,3) by blast
qed

lemma reducer_toggle_collapse:
  assumes "wf_state h state" and "stages_of h state = Some xs"
    and "0 \<le> i" and "i < int (length xs)"
  shows "\<exists>h' state'.
           reducer e h (Some state) (StageCollapseToggled i) = (h', Returned (State state')) \<and>
           stages_of h' state' = Some (xs[nat i := (xs ! nat i)\<lparr>isExpanded := \<not> isExpanded (xs ! nat i)\<rparr>]) \<and>
           wf_state h' state'"
proof -
  obtain h' res where run: "toggleStageCollapse h state i = (h', res)"
    by (metis surj_pair)
  from copy_assign_result[OF assms run[unfolded toggleStageCollapse_def]] obtain s'
    where s': "res = Returned s'"
      "stages_of h' s' = Some (xs[nat i := (xs ! nat i)\<lparr>isExpanded := \<not> isExpanded (xs ! nat i)\<rparr>])"
      "wf_state h' s'" by auto
  have "reducer e h (Some state) (StageCollapseToggled i) = (h', Returned (State s'))"
    using run s'(1) by (simp add: reducer_def MAPPINGS_own call_def)
  then show ?thesis using s'(2,3) by blast
qed

lemma copyState_frame:
  assumes wf: "wf_state h s" and xs: "stages_of h s = Some xs"
  shows "\<exists>h1. copyState h s = Some (h1, nxt h + length xs) \<and>
          nxt h1 = Suc (nxt h + length xs) \<and> unchanged h h1 \<and>
          arrs h1 (nxt h + length xs) = map Ref [nxt h..<nxt h + length xs]"
proof -
  from stages_of_SomeD[OF xs] obtain rs
    where rs: "arrs h s = map Ref rs" "xs = map (objs h) rs" by auto
  note t = wf_state_typed[OF wf rs(1)]
  from copyState_typed[OF rs(1) t(1)] obtain h1 where h1:
    "copyState h s = Some (h1, nxt h + length rs)" "nxt h1 = Suc (nxt h + length rs)"
    "arrs h1 = (arrs h)(nxt h + length rs := map Ref [nxt h..<nxt h + length rs])"
    "\<forall>r<nxt h. objs h1 r = objs h r" by blast
  have "unchanged h h1" using h1(2,3,4) by (auto simp: unchanged_def)
  then show ?thesis using h1(1,2,3) rs(2) by auto
qed

lemma addStage_fresh:
  assumes wf: "wf_state h s" and xs: "stages_of h s = Some xs"
    and run: "addStage h s oid = (h', res)"
  shows "unchanged h h' \<and> (\<exists>s'. res = Returned s' \<and> fresh_copy h h' s')"
proof -
  let ?n = "nxt h" and ?k = "length xs"
  from copyState_frame[OF wf xs] obtain h1 where h1:
    "copyState h s = Some (h1, ?n + ?k)" "nxt h1 = Suc (?n + ?k)" "unchanged h h1"
    "arrs h1 (?n + ?k) = map Ref [?n..<?n + ?k]" by blast
  have r: "res = Returned (?n + ?k)"
    "nxt h' = Suc (Suc (?n + ?k))"
    "objs h' = (objs h1)(Suc (?n + ?k) := (objs h1 EMPTY_STAGE)\<lparr>stage_id := HexId oid\<rparr>)"
    "arrs h' = (arrs h1)(?n + ?k := map Ref [?n..<?n + ?k] @ [Ref (Suc (?n + ?k))])"
    using run h1(1,2,4) by (auto simp: addStage_def alloc_obj_def)
  have "unchanged h h'" using h1(3) r(2,3,4) h1(2) by (auto simp: unchanged_def)
  moreover have "fresh_copy h h' (?n + ?k)"
    using r(2,4) by (simp add: fresh_copy_def list_all_iff)
  ultimately show ?thesis using r(1) by blast
qed

lemma AddAfterStage_fresh:
  assumes wf: "wf_state h s" and xs: "stages_of h s = Some xs"
    and run: "AddAfterStage h s i time = (h', res)"
  shows "unchanged h h' \<and> (\<exists>s'. res = Returned s' \<and> fresh_copy h h' s')"
proof -
  let ?n = "nxt h" and ?k = "length xs"
  from copyState_frame[OF wf xs] obtain h1 where h1:
    "copyState h s = Some (h1, ?n + ?k)" "nxt h1 = Suc (?n + ?k)" "unchanged h h1"
    "arrs h1 (?n + ?k) = map Ref [?n..<?n + ?k]" by blast
  have r: "res = Returned (?n + ?k)"
    "nxt h' = Suc (Suc (?n + ?k))"
    "objs h' = (objs h1)(Suc (?n + ?k) := (objs h1 EMPTY_STAGE)\<lparr>stage_id := TimeId time\<rparr>)"
    "arrs h' = (arrs h1)(?n + ?k :=
        snd (splice_arr (map Ref [?n..<?n + ?k]) (i + 1) 0 [Ref (Suc (?n + ?k))]))"
    using run h1(1,2,4) by (auto simp: AddAfterStage_def alloc_obj_def)
  have "unchanged h h'" using h1(3) r(2,3,4) h1(2) by (auto simp: unchanged_def)
  moreover have "list_all (elem_from ?n) [Ref (Suc (?n + ?k))]" by simp
  then have "list_all (elem_from ?n)
      (snd (splice_arr (map Ref [?n..<?n + ?k]) (i + 1) 0 [Ref (Suc (?n + ?k))]))"
    using splice_list_all(1)[OF list_all_upt_from] by blast
  then have "fresh_copy h h' (?n + ?k)"
    using r(2,4) by (simp add: fresh_copy_def)
  ultimately show ?thesis using r(1) by blast
qed

lemma elem_at_list_all: "list_all P xs \<Longrightarrow> P Undefined \<Longrightarrow> P (elem_at xs i)"
  by (auto simp: elem_at_def list_all_iff)

lemma moveStage_fresh:
  assumes wf: "wf_state h s" and xs: "stages_of h s = Some xs" and ne: "fromIndex \<noteq> toIndex"
    and run: "moveStage h s fromIndex toIndex = (h', res)"
  shows "unchanged h h' \<and> (\<exists>s'. res = Returned s' \<and> fresh_copy h h' s')"
proof -
  let ?n = "nxt h" and ?k = "length xs"
  from copyState_frame[OF wf xs] obtain h1 where h1:
    "copyState h s = Some (h1, ?n + ?k)" "nxt h1 = Suc (?n + ?k)" "unchanged h h1"
    "arrs h1 (?n + ?k) = map Ref [?n..<?n + ?k]" by blast
  let ?sp = "splice_arr (map Ref [?n..<?n + ?k]) fromIndex 1 []"
  let ?es = "snd (splice_arr (snd ?sp) toIndex 0 [elem_at (fst ?sp) 0])"
  have r: "res = Returned (?n + ?k)" "h' = h1\<lparr>arrs := (arrs h1)(?n + ?k := ?es)\<rparr>"
    using run h1(1,4) ne by (auto simp: moveStage_def split: prod.splits)
  have "unchanged h h'" using h1(3) r(2) h1(2) by (auto simp: unchanged_def)
  moreover have "list_all (elem_from ?n) (snd ?sp)" "list_all (elem_from ?n) (fst ?sp)"
    using splice_list_all[OF list_all_upt_from, where ys = "[]"] by simp_all
  then have "list_all (elem_from ?n) ?es"
    using splice_list_all(1)[of "elem_from ?n" "snd ?sp" "[elem_at (fst ?sp) 0]"]
      elem_at_list_all[of "elem_from ?n" "fst ?sp" 0] by simp
  then have "fresh_copy h h' (?n + ?k)"
    using r(2) h1(2) by (simp add: fresh_copy_def)
  ultimately show ?thesis using r(1) by blast
qed

lemma selectStageOperator_cases:
  assumes wf: "wf_state h s" and xs: "stages_of h s = Some xs"
    and run: "selectStageOperator ops h s i operator isCommenting = (h', res)"
  shows "unchanged h h' \<and>
         (if 0 \<le> i \<and> i < int (length xs)
          then (if stageOperator (xs ! nat i) = operator then h' = h \<and> res = Returned s
                else (\<exists>s'. res = Returned s' \<and> fresh_copy h h' s'))
          else res = TypeError)"
proof -
  from stages_of_SomeD[OF xs] obtain rs
    where rs: "arrs h s = map Ref rs" "xs = map (objs h) rs" by auto
  have "\<not> (0 \<le> i \<and> i < int (length xs)) \<or>
        (0 \<le> i \<and> i < int (length xs)) \<and> stageOperator (xs ! nat i) = operator \<or>
        (0 \<le> i \<and> i < int (length xs)) \<and> stageOperator (xs ! nat i) \<noteq> operator" by blast
  then show ?thesis
  proof (elim disjE)
    assume o: "\<not> (0 \<le> i \<and> i < int (length xs))"
    then have "elem_at (arrs h s) i = Undefined" using rs by (auto simp: elem_at_def)
    then have "h' = h" "res = TypeError" using run by (auto simp: selectStageOperator_def)
    then show ?thesis using o by (simp add: unchanged_refl)
  next
    assume v: "(0 \<le> i \<and> i < int (length xs)) \<and> stageOperator (xs ! nat i) = operator"
    then have e: "elem_at (arrs h s) i = Ref (rs ! nat i)" using rs by (simp add: elem_at_typed)
    have "nat i < length rs" using v rs(2) by (simp add: nat_less_iff)
    then have "stageOperator (objs h (rs ! nat i)) = operator" using v rs(2) by simp
    then have "h' = h" "res = Returned s" using run e by (auto simp: selectStageOperator_def)
    then show ?thesis using v by (simp add: unchanged_refl)
  next
    assume v: "(0 \<le> i \<and> i < int (length xs)) \<and> stageOperator (xs ! nat i) \<noteq> operator"
    then have e: "elem_at (arrs h s) i = Ref (rs ! nat i)" using rs by (simp add: elem_at_typed)
    have "nat i < length rs" using v rs(2) by (simp add: nat_less_iff)
    then have "stageOperator (objs h (rs ! nat i)) \<noteq> operator" using v rs(2) by simp
    then have "\<exists>f. (case copyState h s of
                 None \<Rightarrow> (h, Untyped)
               | Some (h1, newState) \<Rightarrow>
                   (case assign h1 newState i f of
                      None \<Rightarrow> (h1, TypeError)
                    | Some h2 \<Rightarrow> (h2, Returned newState))) = (h', res)"
      using run e unfolding selectStageOperator_def Let_def
      apply simp
      apply (erule exI)
      done
    then obtain f where run': "(case copyState h s of
                 None \<Rightarrow> (h, Untyped)
               | Some (h1, newState) \<Rightarrow>
                   (case assign h1 newState i f of
                      None \<Rightarrow> (h1, TypeError)
                    | Some h2 \<Rightarrow> (h2, Returned newState))) = (h', res)" by blast
    from copy_assign_result[OF wf xs conjunct1[OF conjunct1[OF v]] conjunct2[OF conjunct1[OF v]] run']
    show ?thesis using v by auto
  qed
qed

lemma as_state_eq:
  "as_state x = (h', res) \<Longrightarrow>
     \<exists>r. x = (h', r) \<and>
         res = (case r of Returned s \<Rightarrow> Returned (State s) | TypeError \<Rightarrow> TypeError
                | Untyped \<Rightarrow> Untyped)"
  by (cases x rule: as_state.cases) auto

lemma copy_assign_cases:
  assumes wf: "wf_state h s" and xs: "stages_of h s = Some xs"
    and run: "(case copyState h s of
                 None \<Rightarrow> (h, Untyped)
               | Some (h1, newState) \<Rightarrow>
                   (case assign h1 newState i f of
                      None \<Rightarrow> (h1, TypeError)
                    | Some h2 \<Rightarrow> (h2, Returned newState))) = (h', res)"
  shows "unchanged h h' \<and>
         (if in_range xs i then (\<exists>s'. res = Returned s' \<and> fresh_copy h h' s')
          else res = TypeError)"
proof -
  have "in_range xs i \<or> \<not> in_range xs i" by blast
  then show ?thesis
  proof (elim disjE)
    assume v: "in_range xs i"
    then have "0 \<le> i" "i < int (length xs)" by (simp_all add: in_range_def)
    from copy_assign_result[OF wf xs this run] v show ?thesis by auto
  next
    assume v: "\<not> in_range xs i"
    then have "\<not> (0 \<le> i \<and> i < int (length xs))" by (simp add: in_range_def)
    from copy_assign_throws[OF wf xs this run] v show ?thesis by simp
  qed
qed

lemma deleteStage_fresh:
  assumes "wf_state h s" and "stages_of h s = Some xs" and "deleteStage h s i = (h', res)"
  shows "unchanged h h' \<and> (\<exists>s'. res = Returned s' \<and> fresh_copy h h' s')"
  using deleteStage_result[OF assms] by blast

lemma as_state_fresh:
  assumes "as_state x = (h', res)"
    and "\<And>r. x = (h', r) \<Longrightarrow> unchanged h h' \<and> (\<exists>s'. r = Returned s' \<and> fresh_copy h h' s')"
  shows "unchanged h h' \<and> (\<exists>s'. res = Returned (State s') \<and> fresh_copy h h' s')"
proof -
  from as_state_eq[OF assms(1)] obtain r where r: "x = (h', r)"
    "res = (case r of Returned s \<Rightarrow> Returned (State s) | TypeError \<Rightarrow> TypeError
            | Untyped \<Rightarrow> Untyped)" by blast
  from assms(2)[OF r(1)] obtain s' where "unchanged h h'" "r = Returned s'" "fresh_copy h h' s'"
    by blast
  then show ?thesis using r(2) by simp
qed

lemma as_state_in_range:
  assumes "as_state x = (h', res)"
    and "\<And>r. x = (h', r) \<Longrightarrow>
           unchanged h h' \<and>
           (if c then (\<exists>s'. r = Returned s' \<and> fresh_copy h h' s') else r = TypeError)"
  shows "unchanged h h' \<and>
         (if c then (\<exists>s'. res = Returned (State s') \<and> fresh_copy h h' s') else res = TypeError)"
proof -
  from as_state_eq[OF assms(1)] obtain r where r: "x = (h', r)"
    "res = (case r of Returned s \<Rightarrow> Returned (State s) | TypeError \<Rightarrow> TypeError
            | Untyped \<Rightarrow> Untyped)" by blast
  from assms(2)[OF r(1)] show ?thesis using r(2) by (auto split: if_splits)
qed













lemma executor_self_update: "\<exists>e. (s::stage_obj) = s\<lparr>executor := e\<rparr>"
  by (rule exI[of _ "executor s"]) simp

lemma stage_writes_pure:
  assumes "stage_writes gen s s'" and "\<And>x. snd (gen x) = x"
  shows "\<exists>e. s' = s\<lparr>executor := e\<rparr>"
  using assms
proof (induction rule: stage_writes.induct)
  case (unwritten s)
  show ?case by (rule executor_self_update)
next
  case (compiled s s')
  then show ?case by simp
next
  case (cached s s' c)
  then obtain e where "s' = s\<lparr>executor := e\<rparr>" by blast
  then have "s'\<lparr>executor := Some c\<rparr> = s\<lparr>executor := Some c\<rparr>" by simp
  then show ?case by (rule exI)
qed


lemma module_heap_initial_state:
  "wf_state (module_heap oid) INITIAL_STATE \<and>
   stages_of (module_heap oid) INITIAL_STATE = Some [empty_stage oid]"
  by (simp add: wf_state_def stages_of_def module_heap_def INITIAL_STATE_def EMPTY_STAGE_def)

lemma reducer_default_state:
  "MAPPINGS t = None \<Longrightarrow> reducer e h None (OtherAction t) = (h, Returned (State INITIAL_STATE))"
  by (simp add: reducer_def)

lemma sample_heap_stages: "stages_of sample_heap 4 = Some [match_stage, group_stage]"
  by (simp add: stages_of_def sample_heap_def INITIAL_STATE_def)

lemma sample_heap_wf: "wf_state sample_heap 4"
  by (simp add: wf_state_def sample_heap_def INITIAL_STATE_def)

section \<open>The claims\<close>




text \<open>
  Where the last stage of the state is not the last stage generated, line 497 still
  tests the last stage of the state. The two evaluations record what the code does
  there, which the amended claim neither promises nor denies: up to index 0 of a
  \<open>$match\<close> followed by a \<open>$out\<close>, no limit follows the generated \<open>$match\<close>; up to
  index 0 of a \<open>$out\<close> followed by a \<open>$match\<close>, a limit follows the generated
  \<open>$out\<close>.
\<close>

lemma generatePipeline_last_stage_of_state:
  "stages_of out_heap (pipeline sample_state) = Some [match_stage, out_stage] \<and>
   snd (generatePipeline gen out_heap sample_state 0) = Returned [Compiled (fst (gen match_stage))] \<and>
   stages_of out_first_heap (pipeline sample_state) = Some [out_stage, match_stage] \<and>
   snd (generatePipeline gen out_first_heap sample_state 0)
     = Returned [Compiled (fst (gen out_stage)), LIMIT]"
  by (simp add: stages_of_def generatePipeline_def sample_state_def out_heap_def
      out_first_heap_def INITIAL_STATE_def match_stage_def out_stage_def empty_stage_def
      elem_at_def REQUIRED_AS_FIRST_STAGE_def FULL_SCAN_OPS_def OUT_def)

text \<open>
  C2. The large limit \<open>LARGE_LIMIT\<close> is to stand ahead of full-scan operators only
  (\<open>$group\<close>, \<open>$bucket\<close>, \<open>$bucketAuto\<close>). The code does not keep to that: with a
  document count of \<open>N/A\<close> the condition of \<open>generatePipeline\<close>,
  \<open>count === NA || (count > 100000 && ... && state.sample)\<close>, is true for every
  enabled stage, and the large limit is put ahead of a \<open>$match\<close>, which is no
  full-scan operator. The evaluation below is at such a state, for any
  \<open>generateStage\<close>.
\<close>

theorem generatePipeline_large_limit_before_match:
  "generatePipeline gen sample_heap unknown_count_state 0
     = (sample_heap\<lparr>objs := (objs sample_heap)(2 := snd (gen match_stage))\<rparr>,
        Returned [LARGE_LIMIT, Compiled (fst (gen match_stage)), LIMIT]) \<and>
   isEnabled match_stage \<and>
   \<not> ops_include FULL_SCAN_OPS (stageOperator match_stage)"
  by (simp add: generatePipeline_def unknown_count_state_def sample_state_def sample_heap_def
      INITIAL_STATE_def match_stage_def group_stage_def empty_stage_def elem_at_def
      REQUIRED_AS_FIRST_STAGE_def FULL_SCAN_OPS_def OUT_def)

text \<open>
  C3. Whatever the two loads do, the thunk of \<open>fetchItems\<close> dispatches one
  items-fetched action and its promise is fulfilled: a rejection is not propagated.
  When the favorite queries reject, the payload is the normalized saved aggregations;
  when the saved aggregations reject, it is the normalized favorite queries; when both
  loads are fulfilled, it is the normalized aggregations followed by the normalized
  queries; when both reject, it is the empty list.
\<close>

theorem fetchItems_partial_failure:
  "fetchItems toNS (Fulfilled aggregations) (Rejected reason)
     = ([ItemsFetched
           (map (\<lambda>a. \<lparr>item_id = aggregation_id a, lastModified = aggregation_lastModified a,
                       item_name = aggregation_name a,
                       database = fst (toNS (aggregation_namespace a)),
                       collection = snd (toNS (aggregation_namespace a)),
                       item_type = Aggregation\<rparr>) aggregations)],
        Fulfilled ()) \<and>
   fetchItems toNS (Rejected reason) (Fulfilled queries)
     = ([ItemsFetched
           (map (\<lambda>q. \<lparr>item_id = query_id q, lastModified = query_dateSaved q,
                       item_name = query_name q,
                       database = fst (toNS (query_ns q)),
                       collection = snd (toNS (query_ns q)),
                       item_type = Query\<rparr>) queries)],
        Fulfilled ()) \<and>
   fetchItems toNS (Fulfilled aggregations) (Fulfilled queries)
     = ([ItemsFetched
           (map (\<lambda>a. \<lparr>item_id = aggregation_id a, lastModified = aggregation_lastModified a,
                       item_name = aggregation_name a,
                       database = fst (toNS (aggregation_namespace a)),
                       collection = snd (toNS (aggregation_namespace a)),
                       item_type = Aggregation\<rparr>) aggregations @
            map (\<lambda>q. \<lparr>item_id = query_id q, lastModified = query_dateSaved q,
                       item_name = query_name q,
                       database = fst (toNS (query_ns q)),
                       collection = snd (toNS (query_ns q)),
                       item_type = Query\<rparr>) queries)],
        Fulfilled ()) \<and>
   fetchItems toNS (Rejected reason) (Rejected reason') = ([ItemsFetched []], Fulfilled ()) \<and>
   snd (fetchItems toNS aggregationLoad queryLoad) = Fulfilled ()"
  by (simp add: fetchItems_def allSettled_def getAggregationItems_def getQueryItems_def)

text \<open>
  C4. For every state and every stage-moved action whose \<open>fromIndex\<close> equals its
  \<open>toIndex\<close>, the reducer returns the reference of the state it was given, and the
  store is as before: nothing is copied and nothing is written.
\<close>

theorem reducer_move_to_same_index:
  "reducer e h (Some state) (StageMoved i i) = (h, Returned (State state))"
  by (simp add: reducer_def MAPPINGS_own call_def moveStage_def)

text \<open>
  C5. For every state and every stage-operator-selected action whose operator equals the
  operator stored in the stage at the target index, the reducer returns the reference
  of the state it was given, and the store is as before: no copy is made.
\<close>

theorem reducer_select_same_operator:
  assumes "stages_of h state = Some xs" and "0 \<le> i" and "i < int (length xs)"
    and "stageOperator (xs ! nat i) = operator"
  shows "reducer e h (Some state) (StageOperatorSelected i operator isCommenting)
           = (h, Returned (State state))"
proof -
  from stages_of_SomeD[OF assms(1)] obtain rs
    where rs: "arrs h state = map Ref rs" "xs = map (objs h) rs" by auto
  have e: "elem_at (arrs h state) i = Ref (rs ! nat i)"
    using assms(2,3) rs by (simp add: elem_at_typed)
  have "stageOperator (objs h (rs ! nat i)) = operator"
    using assms(2,3,4) rs by simp
  then have "selectStageOperator (STAGE_OPERATORS e) h state i operator isCommenting
               = (h, Returned state)"
    using e by (simp add: selectStageOperator_def)
  then show ?thesis by (simp add: reducer_def MAPPINGS_own call_def)
qed

theorem reducer_select_same_operator_witness:
  "stages_of sample_heap 4 = Some [match_stage, group_stage] \<and>
   stageOperator ([match_stage, group_stage] ! nat 0) = Some ''$match'' \<and>
   reducer sample_env sample_heap (Some 4) (StageOperatorSelected 0 (Some ''$match'') True)
     = (sample_heap, Returned (State 4))"
  using reducer_select_same_operator[of sample_heap 4 "[match_stage, group_stage]" 0
      "Some ''$match''" sample_env True]
  by (simp add: sample_heap_stages match_stage_def)

text \<open>
  C6. For every state of length \<open>n\<close> and every index \<open>i\<close> with \<open>0 \<le> i < n\<close>, the
  stage-deleted action returns a sequence of length \<open>n - 1\<close> that holds the stages
  before \<open>i\<close> followed by the stages after \<open>i\<close>, each with the fields it had and in
  the order they had.
\<close>

theorem reducer_delete_stage:
  assumes "wf_state h state" and "stages_of h state = Some xs"
    and "0 \<le> i" and "i < int (length xs)"
  shows "\<exists>h' state'.
           reducer e h (Some state) (StageDeleted i) = (h', Returned (State state')) \<and>
           stages_of h' state' = Some (take (nat i) xs @ drop (Suc (nat i)) xs) \<and>
           length (take (nat i) xs @ drop (Suc (nat i)) xs) = length xs - 1"
proof -
  obtain h' res where run: "deleteStage h state i = (h', res)" by (metis surj_pair)
  from deleteStage_result[OF assms(1,2) run] assms(3,4) obtain s'
    where s': "res = Returned s'" "stages_of h' s' = Some (take (nat i) xs @ drop (Suc (nat i)) xs)"
    by auto
  have "reducer e h (Some state) (StageDeleted i) = (h', Returned (State s'))"
    using run s'(1) by (simp add: reducer_def MAPPINGS_own call_def)
  moreover have "length (take (nat i) xs @ drop (Suc (nat i)) xs) = length xs - 1"
    using assms(3,4) by auto
  ultimately show ?thesis using s'(2) by blast
qed

theorem reducer_delete_stage_witness:
  "wf_state sample_heap 4 \<and> stages_of sample_heap 4 = Some [match_stage, group_stage] \<and>
   (\<exists>h' state'.
      reducer sample_env sample_heap (Some 4) (StageDeleted 0) = (h', Returned (State state')) \<and>
      stages_of h' state' = Some [group_stage])"
  using reducer_delete_stage[of sample_heap 4 "[match_stage, group_stage]" 0 sample_env]
  by (simp add: sample_heap_stages sample_heap_wf)

text \<open>
  C7, as amended. The reducer never writes to the sequence it is given, to a stage
  object in it, or to any other array or stage object in use (\<open>unchanged\<close>), whatever
  the action and whether it returns or throws. An action of one of the ten types is
  answered with a freshly copied sequence (a new array holding new stage objects), with
  these exceptions: a stage-moved action with \<open>fromIndex = toIndex\<close> and a
  stage-operator-selected action with the operator the stage already has are answered
  with the reference of the given state, the store as it was; and an action whose index
  names no stage of the sequence, for the six transitions that write a field of
  \<open>state[index]\<close>, throws a TypeError. An action for whose type \<open>MAPPINGS\<close> has no
  entry is answered with the reference of the given state, the store as it was.
\<close>

theorem reducer_copy_on_write:
  assumes wf: "wf_state h state" and xs: "stages_of h state = Some xs"
    and run: "reducer e h (Some state) a = (h', res)"
  shows "unchanged h h' \<and>
         (MAPPINGS (action_type a) = None \<longrightarrow> h' = h \<and> res = Returned (State state)) \<and>
         (recognized a \<and> same_reference xs a \<longrightarrow> h' = h \<and> res = Returned (State state)) \<and>
         (recognized a \<and> index_out_of_range xs a \<longrightarrow> res = TypeError) \<and>
         (recognized a \<and> \<not> same_reference xs a \<and> \<not> index_out_of_range xs a \<longrightarrow>
            (\<exists>state'. res = Returned (State state') \<and> fresh_copy h h' state'))"
proof (cases a)
  case StageAdded
  then have r: "as_state (addStage h state (newObjectId e)) = (h', res)"
    using run by (simp add: reducer_def MAPPINGS_own call_def)
  have "unchanged h h' \<and> (\<exists>s'. res = Returned (State s') \<and> fresh_copy h h' s')"
    by (rule as_state_fresh[OF r]) (rule addStage_fresh[OF wf xs])
  then show ?thesis using StageAdded by (simp add: MAPPINGS_own index_out_of_range_def)
next
  case (StageAddedAfter i)
  then have r: "as_state (AddAfterStage h state i (now e)) = (h', res)"
    using run by (simp add: reducer_def MAPPINGS_own call_def)
  have "unchanged h h' \<and> (\<exists>s'. res = Returned (State s') \<and> fresh_copy h h' s')"
    by (rule as_state_fresh[OF r]) (rule AddAfterStage_fresh[OF wf xs])
  then show ?thesis using StageAddedAfter by (simp add: MAPPINGS_own index_out_of_range_def)
next
  case (StageChanged v i)
  then have r: "as_state (changeStage h state i v) = (h', res)"
    using run by (simp add: reducer_def MAPPINGS_own call_def)
  have "unchanged h h' \<and>
        (if in_range xs i then (\<exists>s'. res = Returned (State s') \<and> fresh_copy h h' s')
         else res = TypeError)"
    by (rule as_state_in_range[OF r]) (rule copy_assign_cases[OF wf xs], simp add: changeStage_def)
  then show ?thesis using StageChanged
    by (simp add: MAPPINGS_own index_out_of_range_def split: if_splits)
next
  case (StageCollapseToggled i)
  then have r: "as_state (toggleStageCollapse h state i) = (h', res)"
    using run by (simp add: reducer_def MAPPINGS_own call_def)
  have "unchanged h h' \<and>
        (if in_range xs i then (\<exists>s'. res = Returned (State s') \<and> fresh_copy h h' s')
         else res = TypeError)"
    by (rule as_state_in_range[OF r])
      (rule copy_assign_cases[OF wf xs], simp add: toggleStageCollapse_def)
  then show ?thesis using StageCollapseToggled
    by (simp add: MAPPINGS_own index_out_of_range_def split: if_splits)
next
  case (StageDeleted i)
  then have r: "as_state (deleteStage h state i) = (h', res)"
    using run by (simp add: reducer_def MAPPINGS_own call_def)
  have "unchanged h h' \<and> (\<exists>s'. res = Returned (State s') \<and> fresh_copy h h' s')"
    by (rule as_state_fresh[OF r]) (rule deleteStage_fresh[OF wf xs])
  then show ?thesis using StageDeleted by (simp add: MAPPINGS_own index_out_of_range_def)
next
  case (StageMoved i j)
  then have r: "as_state (moveStage h state i j) = (h', res)"
    using run by (simp add: reducer_def MAPPINGS_own call_def)
  have "i = j \<or> i \<noteq> j" by blast
  then show ?thesis
  proof (elim disjE)
    assume "i = j"
    then show ?thesis using r StageMoved
      by (auto simp: moveStage_def unchanged_refl MAPPINGS_own index_out_of_range_def)
  next
    assume ne: "i \<noteq> j"
    have "unchanged h h' \<and> (\<exists>s'. res = Returned (State s') \<and> fresh_copy h h' s')"
      by (rule as_state_fresh[OF r]) (rule moveStage_fresh[OF wf xs ne])
    then show ?thesis using StageMoved ne by (simp add: MAPPINGS_own index_out_of_range_def)
  qed
next
  case (StageOperatorSelected i operator isCommenting)
  then have r: "as_state (selectStageOperator (STAGE_OPERATORS e) h state i operator isCommenting)
               = (h', res)"
    using run by (simp add: reducer_def MAPPINGS_own call_def)
  from as_state_eq[OF r] obtain r' where r':
    "selectStageOperator (STAGE_OPERATORS e) h state i operator isCommenting = (h', r')"
    "res = (case r' of Returned s \<Rightarrow> Returned (State s) | TypeError \<Rightarrow> TypeError
            | Untyped \<Rightarrow> Untyped)" by blast
  from selectStageOperator_cases[OF wf xs r'(1)] r'(2) show ?thesis
    using StageOperatorSelected
    by (auto simp: MAPPINGS_own index_out_of_range_def in_range_def split: if_splits)
next
  case (StageToggled i)
  then have r: "as_state (toggleStage h state i) = (h', res)"
    using run by (simp add: reducer_def MAPPINGS_own call_def)
  have "unchanged h h' \<and>
        (if in_range xs i then (\<exists>s'. res = Returned (State s') \<and> fresh_copy h h' s')
         else res = TypeError)"
    by (rule as_state_in_range[OF r]) (rule copy_assign_cases[OF wf xs], simp add: toggleStage_def)
  then show ?thesis using StageToggled
    by (simp add: MAPPINGS_own index_out_of_range_def split: if_splits)
next
  case (StagePreviewUpdated docs i err complete)
  then have r: "as_state (updateStagePreview h state i docs err complete) = (h', res)"
    using run by (simp add: reducer_def MAPPINGS_own call_def)
  have "unchanged h h' \<and>
        (if in_range xs i then (\<exists>s'. res = Returned (State s') \<and> fresh_copy h h' s')
         else res = TypeError)"
    by (rule as_state_in_range[OF r])
      (rule copy_assign_cases[OF wf xs], simp add: updateStagePreview_def)
  then show ?thesis using StagePreviewUpdated
    by (simp add: MAPPINGS_own index_out_of_range_def split: if_splits)
next
  case (LoadingStageResults i)
  then have r: "as_state (stageResultsLoading h state i) = (h', res)"
    using run by (simp add: reducer_def MAPPINGS_own call_def)
  have "unchanged h h' \<and>
        (if in_range xs i then (\<exists>s'. res = Returned (State s') \<and> fresh_copy h h' s')
         else res = TypeError)"
    by (rule as_state_in_range[OF r])
      (rule copy_assign_cases[OF wf xs], simp add: stageResultsLoading_def)
  then show ?thesis using LoadingStageResults
    by (simp add: MAPPINGS_own index_out_of_range_def split: if_splits)
next
  case (OtherAction t)
  have u: "unchanged h h'"
  proof -
    have "h' = h \<or> as_state (addStage h state (newObjectId e)) = (h', res)"
      using run OtherAction
      by (auto simp: reducer_def call_def split: option.splits fn.splits)
    then show ?thesis
    proof (elim disjE)
      assume "h' = h"
      then show ?thesis by (simp add: unchanged_refl)
    next
      assume r: "as_state (addStage h state (newObjectId e)) = (h', res)"
      have "unchanged h h' \<and> (\<exists>s'. res = Returned (State s') \<and> fresh_copy h h' s')"
        by (rule as_state_fresh[OF r]) (rule addStage_fresh[OF wf xs])
      then show ?thesis by simp
    qed
  qed
  then show ?thesis using run OtherAction by (auto simp: reducer_def)
qed

theorem reducer_copy_on_write_witness:
  "wf_state sample_heap 4 \<and> stages_of sample_heap 4 = Some [match_stage, group_stage] \<and>
   unchanged sample_heap (fst (reducer sample_env sample_heap (Some 4) (StageToggled 0))) \<and>
   (\<exists>state'. snd (reducer sample_env sample_heap (Some 4) (StageToggled 0)) = Returned (State state') \<and>
      fresh_copy sample_heap (fst (reducer sample_env sample_heap (Some 4) (StageToggled 0))) state')"
  using reducer_copy_on_write[of sample_heap 4 "[match_stage, group_stage]" sample_env
      "StageToggled 0" "fst (reducer sample_env sample_heap (Some 4) (StageToggled 0))"
      "snd (reducer sample_env sample_heap (Some 4) (StageToggled 0))"]
  by (simp add: sample_heap_stages sample_heap_wf index_out_of_range_def in_range_def MAPPINGS_own)

text \<open>
  The claim as stated fails: the stage-moved action is one of the ten recognized
  types, and with \<open>fromIndex = toIndex\<close> the reducer returns the very array it was
  given, which is not a fresh copy.
\<close>

theorem reducer_recognized_not_fresh_counterexample:
  "reducer sample_env sample_heap (Some 4) (StageMoved 1 1) = (sample_heap, Returned (State 4)) \<and>
   recognized (StageMoved 1 1) \<and>
   \<not> fresh_copy sample_heap sample_heap 4"
  by (simp add: reducer_def MAPPINGS_own call_def moveStage_def fresh_copy_def sample_heap_def)

text \<open>
  C8. For every state, every index \<open>i\<close> in range and every stage-preview-updated action
  that carries an \<open>Error\<close> object, the resulting stage \<open>i\<close> has its \<open>error\<close> set to
  the message of the error, no preview documents and \<open>isLoading\<close> cleared
  (\<open>isComplete\<close> is what the action carries), and every other stage is as it was; and
  this is the action that the callback of \<open>dataService.aggregate\<close> dispatches, alone,
  when the call fails.
\<close>

theorem preview_error_confined:
  assumes "wf_state h state" and "stages_of h state = Some xs"
    and "0 \<le> i" and "i < int (length xs)"
  shows "(\<exists>h' state'.
            reducer e h (Some state) (StagePreviewUpdated docs i (Error message) complete)
              = (h', Returned (State state')) \<and>
            stages_of h' state' =
              Some (xs[nat i := (xs ! nat i)\<lparr>previewDocuments := [], error := Some message,
                                             isLoading := False, isComplete := complete\<rparr>])) \<and>
         fst (aggregate_callback h st i (Error message) e0 docs0)
           = [Dispatch (StagePreviewUpdated [] i (Error message) None)]"
proof -
  obtain h' res where run: "updateStagePreview h state i docs (Error message) complete = (h', res)"
    by (metis surj_pair)
  from copy_assign_result[OF assms run[unfolded updateStagePreview_def]] obtain s'
    where s': "res = Returned s'"
      "stages_of h' s' =
         Some (xs[nat i := (xs ! nat i)\<lparr>previewDocuments := [], error := Some message,
                                        isLoading := False, isComplete := complete\<rparr>])"
    by auto
  have "reducer e h (Some state) (StagePreviewUpdated docs i (Error message) complete)
          = (h', Returned (State s'))"
    using run s'(1) by (simp add: reducer_def MAPPINGS_own call_def)
  moreover have "fst (aggregate_callback h st i (Error message) e0 docs0)
             = [Dispatch (StagePreviewUpdated [] i (Error message) None)]"
    by (simp add: aggregate_callback_def)
  ultimately show ?thesis using s'(2) by blast
qed

theorem preview_error_confined_witness:
  "wf_state sample_heap 4 \<and> stages_of sample_heap 4 = Some [match_stage, group_stage] \<and>
   (\<exists>h' state'.
      reducer sample_env sample_heap (Some 4) (StagePreviewUpdated [] 0 (Error ''timed out'') None)
        = (h', Returned (State state')) \<and>
      stages_of h' state' =
        Some [match_stage\<lparr>previewDocuments := [], error := Some ''timed out'',
                          isLoading := False, isComplete := None\<rparr>, group_stage]) \<and>
   fst (aggregate_callback sample_heap sample_state 0 (Error ''timed out'') NullError None)
     = [Dispatch (StagePreviewUpdated [] 0 (Error ''timed out'') None)]"
  using preview_error_confined[of sample_heap 4 "[match_stage, group_stage]" 0 sample_env "[]"
      "''timed out''" None sample_state NullError None]
  by (simp add: sample_heap_stages sample_heap_wf)




text \<open>
  C10. For every state and every index \<open>i\<close> in range, the stage-toggled action flips
  \<open>isEnabled\<close> of stage \<open>i\<close> and changes no other field and no other stage, and
  applied twice it gives a state equal, stage by stage, to the original; likewise the
  stage-collapse-toggled action and \<open>isExpanded\<close>.
\<close>

theorem toggle_twice:
  assumes "wf_state h state" and "stages_of h state = Some xs"
    and "0 \<le> i" and "i < int (length xs)"
  shows "(\<exists>h1 s1 h2 s2.
            reducer e h (Some state) (StageToggled i) = (h1, Returned (State s1)) \<and>
            stages_of h1 s1 = Some (xs[nat i := (xs ! nat i)\<lparr>isEnabled := \<not> isEnabled (xs ! nat i)\<rparr>]) \<and>
            reducer e h1 (Some s1) (StageToggled i) = (h2, Returned (State s2)) \<and>
            stages_of h2 s2 = Some xs) \<and>
         (\<exists>h1 s1 h2 s2.
            reducer e h (Some state) (StageCollapseToggled i) = (h1, Returned (State s1)) \<and>
            stages_of h1 s1 = Some (xs[nat i := (xs ! nat i)\<lparr>isExpanded := \<not> isExpanded (xs ! nat i)\<rparr>]) \<and>
            reducer e h1 (Some s1) (StageCollapseToggled i) = (h2, Returned (State s2)) \<and>
            stages_of h2 s2 = Some xs)"
proof
  define ys where "ys = xs[nat i := (xs ! nat i)\<lparr>isEnabled := \<not> isEnabled (xs ! nat i)\<rparr>]"
  have undo: "ys[nat i := (ys ! nat i)\<lparr>isEnabled := \<not> isEnabled (ys ! nat i)\<rparr>] = xs"
    using assms(3,4) by (simp add: ys_def list_update_same_conv)
  from reducer_toggle[OF assms] obtain h1 s1 where 1:
    "reducer e h (Some state) (StageToggled i) = (h1, Returned (State s1))"
    "stages_of h1 s1 = Some ys" "wf_state h1 s1"
    unfolding ys_def by blast
  have l: "i < int (length ys)" using assms(4) by (simp add: ys_def)
  from reducer_toggle[OF 1(3) 1(2) assms(3) l] obtain h2 s2 where 2:
    "reducer e h1 (Some s1) (StageToggled i) = (h2, Returned (State s2))"
    "stages_of h2 s2 = Some xs"
    unfolding undo by blast
  show "\<exists>h1 s1 h2 s2.
            reducer e h (Some state) (StageToggled i) = (h1, Returned (State s1)) \<and>
            stages_of h1 s1 = Some (xs[nat i := (xs ! nat i)\<lparr>isEnabled := \<not> isEnabled (xs ! nat i)\<rparr>]) \<and>
            reducer e h1 (Some s1) (StageToggled i) = (h2, Returned (State s2)) \<and>
            stages_of h2 s2 = Some xs"
    using 1(1,2) 2 unfolding ys_def by blast
next
  define ys where "ys = xs[nat i := (xs ! nat i)\<lparr>isExpanded := \<not> isExpanded (xs ! nat i)\<rparr>]"
  have undo: "ys[nat i := (ys ! nat i)\<lparr>isExpanded := \<not> isExpanded (ys ! nat i)\<rparr>] = xs"
    using assms(3,4) by (simp add: ys_def list_update_same_conv)
  from reducer_toggle_collapse[OF assms] obtain h1 s1 where 1:
    "reducer e h (Some state) (StageCollapseToggled i) = (h1, Returned (State s1))"
    "stages_of h1 s1 = Some ys" "wf_state h1 s1"
    unfolding ys_def by blast
  have l: "i < int (length ys)" using assms(4) by (simp add: ys_def)
  from reducer_toggle_collapse[OF 1(3) 1(2) assms(3) l] obtain h2 s2 where 2:
    "reducer e h1 (Some s1) (StageCollapseToggled i) = (h2, Returned (State s2))"
    "stages_of h2 s2 = Some xs"
    unfolding undo by blast
  show "\<exists>h1 s1 h2 s2.
            reducer e h (Some state) (StageCollapseToggled i) = (h1, Returned (State s1)) \<and>
            stages_of h1 s1 = Some (xs[nat i := (xs ! nat i)\<lparr>isExpanded := \<not> isExpanded (xs ! nat i)\<rparr>]) \<and>
            reducer e h1 (Some s1) (StageCollapseToggled i) = (h2, Returned (State s2)) \<and>
            stages_of h2 s2 = Some xs"
    using 1(1,2) 2 unfolding ys_def by blast
qed

theorem toggle_twice_witness:
  "wf_state sample_heap 4 \<and> stages_of sample_heap 4 = Some [match_stage, group_stage] \<and>
   (\<exists>h1 s1 h2 s2.
      reducer sample_env sample_heap (Some 4) (StageToggled 1) = (h1, Returned (State s1)) \<and>
      stages_of h1 s1 = Some [match_stage, group_stage\<lparr>isEnabled := False\<rparr>] \<and>
      reducer sample_env h1 (Some s1) (StageToggled 1) = (h2, Returned (State s2)) \<and>
      stages_of h2 s2 = Some [match_stage, group_stage]) \<and>
   (\<exists>h1 s1 h2 s2.
      reducer sample_env sample_heap (Some 4) (StageCollapseToggled 1) = (h1, Returned (State s1)) \<and>
      stages_of h1 s1 = Some [match_stage, group_stage\<lparr>isExpanded := False\<rparr>] \<and>
      reducer sample_env h1 (Some s1) (StageCollapseToggled 1) = (h2, Returned (State s2)) \<and>
      stages_of h2 s2 = Some [match_stage, group_stage])"
  using toggle_twice[of sample_heap 4 "[match_stage, group_stage]" 1 sample_env]
  by (simp add: sample_heap_stages sample_heap_wf group_stage_def empty_stage_def)

end
